theory Spec2Isabelle
  imports Main "HOL-Library.Word"
begin

section \<open>The Windows event-loop core of libuv (src/deps/uv/src/win/core.c)\<close>

text \<open>
  The file under verification is the loop core: loop construction and deletion, the
  reference count, the two completion pollers \<open>uv_poll\<close> and \<open>uv_poll_ex\<close>, the tick
  macro \<open>UV_LOOP_ONCE\<close>, the run macro \<open>UV_LOOP\<close> and the entry points \<open>uv_run_once\<close>
  and \<open>uv_run\<close>.  Everything the file calls but does not define (the timer store, the
  phase invokers, the request queue, the Win32 calls) is a field of a record of hooks,
  so that every theorem below holds for every behaviour of these collaborators.
\<close>

subsection \<open>Machine types and Win32 constants\<close>

type_synonym DWORD = "32 word"
type_synonym c_int = "32 word"  \<comment> \<open>C \<open>int\<close>: read with \<open>sint\<close>, arithmetic wraps\<close>
type_synonym HANDLE = nat
type_synonym OVERLAPPED = nat  \<comment> \<open>the address of an OVERLAPPED structure\<close>
type_synonym uv_req = nat  \<comment> \<open>the address of a request\<close>
type_synonym uv_handle = nat  \<comment> \<open>the address of a handle\<close>

definition WAIT_TIMEOUT :: DWORD where
  "WAIT_TIMEOUT = 258"

definition INFINITE :: DWORD where
  "INFINITE = 0xFFFFFFFF"

definition ERROR_OUTOFMEMORY :: DWORD where
  "ERROR_OUTOFMEMORY = 14"

text \<open>\<open>ARRAY_SIZE(overlappeds)\<close> for \<open>OVERLAPPED_ENTRY overlappeds[128]\<close>.\<close>

definition ARRAY_SIZE_overlappeds :: nat where
  "ARRAY_SIZE_overlappeds = 128"

subsection \<open>The loop\<close>

text \<open>
  The fields are those \<open>uv_loop_init\<close> assigns.  A pointer that heads a list of requests
  or handles is the list it heads, \<open>NULL\<close> being the empty list; a pointer to one object
  is an option.  The record is extensible: its extension stands for whatever else the
  collaborators keep (their own counters, the state of the kernel).
\<close>

record uv_loop_t =
  iocp :: "HANDLE option"
  refs :: c_int
  time :: int
  pending_reqs_tail :: "uv_req list"
  endgame_handles :: "uv_handle list"
  timers :: "int list"
  uv_ares_handles :: "uv_handle list"
  check_handles :: "uv_handle list"
  prepare_handles :: "uv_handle list"
  idle_handles :: "uv_handle list"
  next_prepare_handle :: "uv_handle option"
  next_check_handle :: "uv_handle option"
  next_idle_handle :: "uv_handle option"
  ares_active_sockets :: c_int
  ares_chan :: "nat option"
  active_tcp_streams :: c_int
  active_udp_streams :: c_int
  last_err :: "int \<times> int"
  counters :: "string \<Rightarrow> 64 word"

type_synonym 'w loop = "'w uv_loop_t_scheme"

subsection \<open>Fatal termination\<close>

text \<open>
  \<open>uv_fatal_error(code, name)\<close> ends the process with the error code and the name of the
  failing operation; a failed \<open>assert\<close> aborts it, in a build that checks assertions; a
  call through a function pointer that is \<open>NULL\<close> has no defined behaviour and is taken to
  end the process too.  All three are the left summand of every result.
\<close>

datatype fatal = Fatal DWORD string | Assertion_failed string | Call_through_NULL string

subsection \<open>What the kernel answers\<close>

text \<open>
  \<open>GetQueuedCompletionStatus\<close> returns a BOOL, stores the dequeued packet's OVERLAPPED
  pointer (\<open>NULL\<close> when no packet was dequeued) and leaves the thread's last error.
\<close>

record gqcs_result =
  success :: bool
  lpOverlapped :: "OVERLAPPED option"
  last_error :: DWORD

text \<open>
  \<open>GetQueuedCompletionStatusEx\<close> returns a BOOL, writes \<open>count\<close> entries to the array it
  is given and leaves the thread's last error; \<open>removed\<close> is the list of the
  \<open>lpOverlapped\<close> members of \<open>overlappeds[0 .. count - 1]\<close>, in the order of the array.
\<close>

record gqcs_ex_result =
  success_ex :: bool
  removed :: "OVERLAPPED list"
  last_error_ex :: DWORD

subsection \<open>The process\<close>

text \<open>
  What core.c keeps outside a loop: the static loop (\<open>uv_default_loop_\<close> in the source;
  a name cannot end in an underscore here), the two \<open>uv_once\<close> guards (\<open>UV_ONCE_INIT\<close> is a
  guard that has not run), the loops that \<open>malloc\<close> returned
  and \<open>free\<close> has not yet taken back, the completion ports this process has open in the
  kernel, and the subsystems \<open>uv_init\<close> has initialised, in order.  A \<open>uv_loop_t*\<close> is
  the address of the static loop or an address on the heap.
\<close>

datatype uv_once_t = uv_init_guard | uv_default_loop_init_guard

datatype loop_ptr = Address_of_default_loop | Allocated nat

record 'w process =
  static_default_loop :: "'w loop"
  once_ran :: "uv_once_t \<Rightarrow> bool"
  heap :: "nat \<rightharpoonup> 'w loop"
  open_ports :: "HANDLE set"
  initialised :: "string list"

subsection \<open>The collaborators\<close>

text \<open>
  One field for each function that core.c calls and does not define.  The kernel calls
  see the loop (whose extension may hold the state of the kernel), the completion port,
  and the arguments of the call: the capacity of the array for the batch call, and the
  timeout.  \<open>pGetQueuedCompletionStatusEx\<close> is a function pointer, \<open>NULL\<close> on a platform
  without the batch call.  \<open>malloc\<close> answers with an address and the indeterminate
  contents of the block, or \<open>NULL\<close>; \<open>CreateIoCompletionPort\<close> with a handle or \<open>NULL\<close>, and
  the thread's last error.  A phase may change the loop in any way.  \<open>uv_get_poll_timeout\<close>
  and the kernel's retrieval calls are queries: core.c uses the value they return, and
  the timer store's interface in the spec (6) is a question about the earliest
  deadline; what they answer may depend on the whole loop.  \<open>NDEBUG\<close> is the macro of
  that name: core.c does not say whether the build defines it, and where it is defined
  \<open>assert\<close> expands to nothing.
\<close>

record 'w hooks =
  uv_update_time :: "'w loop \<Rightarrow> 'w loop"
  uv_process_timers :: "'w loop \<Rightarrow> 'w loop"
  uv_idle_invoke :: "'w loop \<Rightarrow> 'w loop"
  uv_process_reqs :: "'w loop \<Rightarrow> 'w loop"
  uv_process_endgames :: "'w loop \<Rightarrow> 'w loop"
  uv_prepare_invoke :: "'w loop \<Rightarrow> 'w loop"
  uv_check_invoke :: "'w loop \<Rightarrow> 'w loop"
  uv_get_poll_timeout :: "'w loop \<Rightarrow> DWORD"
  uv_overlapped_to_req :: "OVERLAPPED \<Rightarrow> uv_req"
  uv_insert_pending_req :: "'w loop \<Rightarrow> uv_req \<Rightarrow> 'w loop"
  GetQueuedCompletionStatus :: "'w loop \<Rightarrow> HANDLE option \<Rightarrow> DWORD \<Rightarrow> gqcs_result"
  pGetQueuedCompletionStatusEx ::
    "('w loop \<Rightarrow> HANDLE option \<Rightarrow> nat \<Rightarrow> DWORD \<Rightarrow> gqcs_ex_result) option"
  malloc :: "'w process \<Rightarrow> (nat \<times> 'w loop) option"
  CreateIoCompletionPort :: "'w process \<Rightarrow> HANDLE option \<times> DWORD"
  NDEBUG :: bool

subsection \<open>What a run leaves behind\<close>

text \<open>
  Every function returns, next to its result, the calls it made, in order: the phases of
  the tick, the call of the poller with the loop as it stood at that moment and the
  \<open>block\<close> argument, and the completion-retrieval call with its name, the number of
  entries it may return and the timeout it was passed.
\<close>

datatype 'l event =
    Update_time
  | Process_timers
  | Idle_invoke
  | Process_reqs
  | Process_endgames
  | Prepare_invoke
  | Poll 'l bool
  | Retrieval string nat DWORD
  | Check_invoke

type_synonym 'l outcome = "'l event list \<times> (fatal + 'l)"

subsection \<open>Bootstrap and loop construction\<close>

definition uv_init :: "'w process \<Rightarrow> 'w process" where
  "uv_init p =
    p\<lparr>initialised := initialised p @
        [''SetErrorMode'', ''uv_winsock_init'', ''uv_winapi_init'', ''uv_fs_init'',
         ''uv_console_init'']\<rparr>"

text \<open>
  Modelled from the spec: \<open>uv_once\<close>, which core.c calls and another file of the library
  defines.  The spec's contract (4.1): the bootstrap is performed exactly once per
  process, however often it is triggered.  So the callback runs when the guard has not
  run yet, and the guard has run from then on.
\<close>

definition uv_once ::
  "uv_once_t \<Rightarrow> ('w process \<Rightarrow> fatal + 'w process) \<Rightarrow> 'w process \<Rightarrow> fatal + 'w process" where
  "uv_once guard callback p =
    (if once_ran p guard then Inr p
     else case callback p of
            Inl e \<Rightarrow> Inl e
          | Inr p' \<Rightarrow> Inr (p'\<lparr>once_ran := (once_ran p')(guard := True)\<rparr>))"

text \<open>The constant \<open>uv_ok_\<close> of uv-common: no error.\<close>

definition uv_ok :: "int \<times> int" where
  "uv_ok = (0, 0)"

text \<open>
  \<open>uv_loop_init(loop)\<close>: the loop is passed and returned by value, the caller stores it
  at its address.
\<close>

definition uv_loop_init ::
  "'w hooks \<Rightarrow> 'w process \<Rightarrow> 'w loop \<Rightarrow> fatal + 'w process \<times> 'w loop" where
  "uv_loop_init h p loop =
    (case CreateIoCompletionPort h p of
       (None, err) \<Rightarrow> Inl (Fatal err ''CreateIoCompletionPort'')
     | (Some port, err) \<Rightarrow>
         (let loop1 = loop\<lparr>iocp := Some port, refs := 0\<rparr>;
              loop2 = uv_update_time h loop1
          in Inr (p\<lparr>open_ports := insert port (open_ports p)\<rparr>,
                  loop2\<lparr>pending_reqs_tail := [],
                        endgame_handles := [],
                        timers := [],
                        uv_ares_handles := [],
                        check_handles := [],
                        prepare_handles := [],
                        idle_handles := [],
                        next_prepare_handle := None,
                        next_check_handle := None,
                        next_idle_handle := None,
                        ares_active_sockets := 0,
                        ares_chan := None,
                        active_tcp_streams := 0,
                        active_udp_streams := 0,
                        last_err := uv_ok,
                        counters := (\<lambda>name. 0)\<rparr>)))"

definition uv_default_loop_init :: "'w hooks \<Rightarrow> 'w process \<Rightarrow> fatal + 'w process" where
  "uv_default_loop_init h p =
    (case uv_once uv_init_guard (\<lambda>q. Inr (uv_init q)) p of
       Inl e \<Rightarrow> Inl e
     | Inr p1 \<Rightarrow>
         (case uv_loop_init h p1 (static_default_loop p1) of
            Inl e \<Rightarrow> Inl e
          | Inr (p2, loop) \<Rightarrow> Inr (p2\<lparr>static_default_loop := loop\<rparr>)))"

definition uv_default_loop :: "'w hooks \<Rightarrow> 'w process \<Rightarrow> fatal + loop_ptr \<times> 'w process" where
  "uv_default_loop h p =
    (case uv_once uv_default_loop_init_guard (uv_default_loop_init h) p of
       Inl e \<Rightarrow> Inl e
     | Inr p' \<Rightarrow> Inr (Address_of_default_loop, p'))"

definition uv_loop_new :: "'w hooks \<Rightarrow> 'w process \<Rightarrow> fatal + loop_ptr \<times> 'w process" where
  "uv_loop_new h p =
    (case uv_once uv_init_guard (\<lambda>q. Inr (uv_init q)) p of
       Inl e \<Rightarrow> Inl e
     | Inr p1 \<Rightarrow>
         (case malloc h p1 of
            None \<Rightarrow> Inl (Fatal ERROR_OUTOFMEMORY ''malloc'')
          | Some (a, contents) \<Rightarrow>
              (case uv_loop_init h (p1\<lparr>heap := (heap p1)(a \<mapsto> contents)\<rparr>) contents of
                 Inl e \<Rightarrow> Inl e
               | Inr (p2, loop) \<Rightarrow> Inr (Allocated a, p2\<lparr>heap := (heap p2)(a \<mapsto> loop)\<rparr>))))"

subsection \<open>Loop deletion\<close>

text \<open>
  \<open>free(loop)\<close> gives the block back.  \<open>uv_loop_delete\<close> calls it on no other pointer than
  one into the heap; C leaves \<open>free\<close> of the static loop undefined, and it is never
  reached.
\<close>

fun free :: "'w process \<Rightarrow> loop_ptr \<Rightarrow> 'w process" where
  "free p (Allocated a) = p\<lparr>heap := (heap p)(a := None)\<rparr>"
| "free p Address_of_default_loop = p"

definition uv_loop_delete :: "'w process \<Rightarrow> loop_ptr \<Rightarrow> 'w process" where
  "uv_loop_delete p loop = (if loop \<noteq> Address_of_default_loop then free p loop else p)"

text \<open>Reading a loop through a pointer; \<open>None\<close> for a pointer that dangles.\<close>

fun deref :: "'w process \<Rightarrow> loop_ptr \<Rightarrow> 'w loop option" where
  "deref p Address_of_default_loop = Some (static_default_loop p)"
| "deref p (Allocated a) = heap p a"

subsection \<open>Sequences of calls\<close>

text \<open>
  \<open>n\<close> calls of \<open>uv_default_loop\<close>, one after the other: the pointers they returned and
  the process they leave.
\<close>

fun default_loop_calls ::
  "nat \<Rightarrow> 'w hooks \<Rightarrow> 'w process \<Rightarrow> fatal + loop_ptr list \<times> 'w process" where
  "default_loop_calls 0 h p = Inr ([], p)"
| "default_loop_calls (Suc n) h p =
     (case uv_default_loop h p of
        Inl e \<Rightarrow> Inl e
      | Inr (ptr, p') \<Rightarrow>
          (case default_loop_calls n h p' of
             Inl e \<Rightarrow> Inl e
           | Inr (ptrs, p'') \<Rightarrow> Inr (ptr # ptrs, p'')))"

subsection \<open>The reference count\<close>

definition uv_loop_refcount :: "'w loop \<Rightarrow> c_int" where
  "uv_loop_refcount loop = refs loop"

definition uv_ref :: "'w loop \<Rightarrow> 'w loop" where
  "uv_ref loop = loop\<lparr>refs := refs loop + 1\<rparr>"

definition uv_unref :: "'w loop \<Rightarrow> 'w loop" where
  "uv_unref loop = loop\<lparr>refs := refs loop - 1\<rparr>"

subsection \<open>The two pollers\<close>

definition uv_poll :: "'w hooks \<Rightarrow> 'w loop \<Rightarrow> bool \<Rightarrow> 'w loop outcome" where
  "uv_poll h loop block =
    (let timeout = (if block then uv_get_poll_timeout h loop else 0);
         r = GetQueuedCompletionStatus h loop (iocp loop) timeout
     in ([Retrieval ''GetQueuedCompletionStatus'' 1 timeout],
         case lpOverlapped r of
           Some overlapped \<Rightarrow>
             Inr (uv_insert_pending_req h loop (uv_overlapped_to_req h overlapped))
         | None \<Rightarrow>
             if last_error r \<noteq> WAIT_TIMEOUT
             then Inl (Fatal (last_error r) ''GetQueuedCompletionStatus'')
             else Inr loop))"

text \<open>The \<open>for\<close> loop of \<open>uv_poll_ex\<close> over \<open>overlappeds[0 .. count - 1]\<close>.\<close>

fun insert_dequeued :: "'w hooks \<Rightarrow> 'w loop \<Rightarrow> OVERLAPPED list \<Rightarrow> 'w loop" where
  "insert_dequeued h loop [] = loop"
| "insert_dequeued h loop (overlapped # rest) =
     insert_dequeued h
       (uv_insert_pending_req h loop (uv_overlapped_to_req h overlapped)) rest"

definition uv_poll_ex :: "'w hooks \<Rightarrow> 'w loop \<Rightarrow> bool \<Rightarrow> 'w loop outcome" where
  "uv_poll_ex h loop block =
    (let timeout = (if block then uv_get_poll_timeout h loop else 0) in
     case pGetQueuedCompletionStatusEx h of
       None \<Rightarrow>
         if NDEBUG h then ([], Inl (Call_through_NULL ''pGetQueuedCompletionStatusEx''))
         else ([], Inl (Assertion_failed ''pGetQueuedCompletionStatusEx''))
     | Some call \<Rightarrow>
         (let r = call loop (iocp loop) ARRAY_SIZE_overlappeds timeout
          in ([Retrieval ''GetQueuedCompletionStatusEx'' ARRAY_SIZE_overlappeds timeout],
              if success_ex r then Inr (insert_dequeued h loop (removed r))
              else if last_error_ex r \<noteq> WAIT_TIMEOUT
              then Inl (Fatal (last_error_ex r) ''GetQueuedCompletionStatusEx'')
              else Inr loop)))"

subsection \<open>One tick\<close>

text \<open>
  The macro \<open>UV_LOOP_ONCE(loop, poll)\<close>; the poller is its second argument.  The
  \<open>break\<close> at \<open>refs <= 0\<close> ends the tick before the prepare phase.
\<close>

definition UV_LOOP_ONCE ::
  "'w hooks \<Rightarrow> ('w hooks \<Rightarrow> 'w loop \<Rightarrow> bool \<Rightarrow> 'w loop outcome) \<Rightarrow> 'w loop
     \<Rightarrow> 'w loop outcome" where
  "UV_LOOP_ONCE h poll loop0 =
    (let loop1 = uv_update_time h loop0;
         loop2 = uv_process_timers h loop1;
         nothing_to_do = (pending_reqs_tail loop2 = [] \<and> endgame_handles loop2 = []);
         loop3 = (if nothing_to_do then uv_idle_invoke h loop2 else loop2);
         loop4 = uv_process_reqs h loop3;
         loop5 = uv_process_endgames h loop4;
         calls = [Update_time, Process_timers] @ (if nothing_to_do then [Idle_invoke] else [])
                   @ [Process_reqs, Process_endgames]
     in if sint (refs loop5) \<le> 0 then (calls, Inr loop5)
        else
          (let loop6 = uv_prepare_invoke h loop5;
               block = (idle_handles loop6 = [] \<and> pending_reqs_tail loop6 = [] \<and>
                        endgame_handles loop6 = [] \<and> 0 < sint (refs loop6))
           in case poll h loop6 block of
                (polled, Inl e) \<Rightarrow> (calls @ [Prepare_invoke, Poll loop6 block] @ polled, Inl e)
              | (polled, Inr loop7) \<Rightarrow>
                  (calls @ [Prepare_invoke, Poll loop6 block] @ polled @ [Check_invoke],
                   Inr (uv_check_invoke h loop7))))"

subsection \<open>The run loop and the entry points\<close>

text \<open>
  The macro \<open>UV_LOOP(loop, poll)\<close>: \<open>while (refs > 0) UV_LOOP_ONCE\<close>.  The loop need not
  end, so the function is partial: \<open>None\<close> is a run that never leaves the loop.  The
  events of the ticks so far are its third argument.  \<open>uv_run\<close> ends in
  \<open>assert(loop->refs == 0)\<close>, which a build with \<open>NDEBUG\<close> does not check.
\<close>

partial_function (option) UV_LOOP ::
  "'w hooks \<Rightarrow> ('w hooks \<Rightarrow> 'w loop \<Rightarrow> bool \<Rightarrow> 'w loop outcome) \<Rightarrow>
     'w loop event list \<Rightarrow> 'w loop \<Rightarrow> 'w loop outcome option" where
  "UV_LOOP h poll done_so_far loop =
    (if 0 < sint (refs loop)
     then (case UV_LOOP_ONCE h poll loop of
             (calls, Inl e) \<Rightarrow> Some (done_so_far @ calls, Inl e)
           | (calls, Inr loop') \<Rightarrow> UV_LOOP h poll (done_so_far @ calls) loop')
     else Some (done_so_far, Inr loop))"

declare UV_LOOP.simps [code]

definition uv_run_once :: "'w hooks \<Rightarrow> 'w loop \<Rightarrow> 'w loop event list \<times> (fatal + c_int \<times> 'w loop)" where
  "uv_run_once h loop =
    (case (if pGetQueuedCompletionStatusEx h \<noteq> None
           then UV_LOOP_ONCE h uv_poll_ex loop
           else UV_LOOP_ONCE h uv_poll loop) of
       (calls, Inl e) \<Rightarrow> (calls, Inl e)
     | (calls, Inr loop') \<Rightarrow> (calls, Inr (0, loop')))"

definition uv_run ::
  "'w hooks \<Rightarrow> 'w loop \<Rightarrow> ('w loop event list \<times> (fatal + c_int \<times> 'w loop)) option" where
  "uv_run h loop =
    (case (if pGetQueuedCompletionStatusEx h \<noteq> None
           then UV_LOOP h uv_poll_ex [] loop
           else UV_LOOP h uv_poll [] loop) of
       None \<Rightarrow> None
     | Some (calls, Inl e) \<Rightarrow> Some (calls, Inl e)
     | Some (calls, Inr loop') \<Rightarrow>
         if NDEBUG h \<or> refs loop' = 0 then Some (calls, Inr (0, loop'))
         else Some (calls, Inl (Assertion_failed ''loop->refs == 0'')))"

section \<open>Sample collaborators, loops and processes\<close>

text \<open>
  Concrete inputs on which the theorems below are exercised.  \<open>zeroed\<close> is a loop in
  zero-initialised static storage.  \<open>quiet\<close> are collaborators that do nothing: every
  phase leaves the loop as it is, the timer store has no timer, a request is inserted
  at the tail of the queue, the completion port has nothing ready, the batch call is not
  available, \<open>malloc\<close> returns the block at address 1, the kernel opens port 7, and
  assertions are checked.
\<close>

definition zeroed :: uv_loop_t where
  "zeroed =
    \<lparr>iocp = None, refs = 0, time = 0, pending_reqs_tail = [], endgame_handles = [],
     timers = [], uv_ares_handles = [], check_handles = [], prepare_handles = [],
     idle_handles = [], next_prepare_handle = None, next_check_handle = None,
     next_idle_handle = None, ares_active_sockets = 0, ares_chan = None,
     active_tcp_streams = 0, active_udp_streams = 0, last_err = (0, 0),
     counters = (\<lambda>name. 0)\<rparr>"

definition nothing_ready :: gqcs_result where
  "nothing_ready = \<lparr>success = False, lpOverlapped = None, last_error = WAIT_TIMEOUT\<rparr>"

definition append_req :: "uv_loop_t \<Rightarrow> uv_req \<Rightarrow> uv_loop_t" where
  "append_req loop req = loop\<lparr>pending_reqs_tail := pending_reqs_tail loop @ [req]\<rparr>"

definition quiet :: "unit hooks" where
  "quiet =
    \<lparr>uv_update_time = (\<lambda>loop. loop),
     uv_process_timers = (\<lambda>loop. loop),
     uv_idle_invoke = (\<lambda>loop. loop),
     uv_process_reqs = (\<lambda>loop. loop),
     uv_process_endgames = (\<lambda>loop. loop),
     uv_prepare_invoke = (\<lambda>loop. loop),
     uv_check_invoke = (\<lambda>loop. loop),
     uv_get_poll_timeout = (\<lambda>loop. INFINITE),
     uv_overlapped_to_req = (\<lambda>overlapped. overlapped),
     uv_insert_pending_req = append_req,
     GetQueuedCompletionStatus = (\<lambda>loop port timeout. nothing_ready),
     pGetQueuedCompletionStatusEx = None,
     malloc = (\<lambda>p. Some (1, zeroed)),
     CreateIoCompletionPort = (\<lambda>p. (Some 7, 0)),
     NDEBUG = False\<rparr>"

text \<open>A prepare callback that drops the last reference.\<close>

definition unref_in_prepare :: "unit hooks" where
  "unref_in_prepare = quiet\<lparr>uv_prepare_invoke := uv_unref\<rparr>"

text \<open>A prepare callback that drops two references where one is held.\<close>

definition unref_twice_in_prepare :: "unit hooks" where
  "unref_twice_in_prepare = quiet\<lparr>uv_prepare_invoke := (\<lambda>loop. uv_unref (uv_unref loop))\<rparr>"

text \<open>A completion port that fails with \<open>ERROR_INVALID_HANDLE\<close> (6).\<close>

definition broken_port :: "unit hooks" where
  "broken_port =
    quiet\<lparr>GetQueuedCompletionStatus :=
            (\<lambda>loop port timeout. \<lparr>success = False, lpOverlapped = None, last_error = 6\<rparr>)\<rparr>"

text \<open>
  A platform with the batch call, whose port holds the packets 11, 12 and 13: the call
  removes as many as the array takes.
\<close>

definition three_ready :: "uv_loop_t \<Rightarrow> HANDLE option \<Rightarrow> nat \<Rightarrow> DWORD \<Rightarrow> gqcs_ex_result" where
  "three_ready loop port capacity timeout =
    \<lparr>success_ex = True, removed = take capacity [11, 12, 13], last_error_ex = 0\<rparr>"

definition batch :: "unit hooks" where
  "batch = quiet\<lparr>pGetQueuedCompletionStatusEx := Some three_ready\<rparr>"

text \<open>A batch call that times out, and one that fails with \<open>ERROR_INVALID_HANDLE\<close>.\<close>

definition batch_times_out :: "uv_loop_t \<Rightarrow> HANDLE option \<Rightarrow> nat \<Rightarrow> DWORD \<Rightarrow> gqcs_ex_result" where
  "batch_times_out loop port capacity timeout =
    \<lparr>success_ex = False, removed = [], last_error_ex = WAIT_TIMEOUT\<rparr>"

definition batch_fails :: "uv_loop_t \<Rightarrow> HANDLE option \<Rightarrow> nat \<Rightarrow> DWORD \<Rightarrow> gqcs_ex_result" where
  "batch_fails loop port capacity timeout =
    \<lparr>success_ex = False, removed = [], last_error_ex = 6\<rparr>"

definition batch_nothing_ready :: "unit hooks" where
  "batch_nothing_ready = quiet\<lparr>pGetQueuedCompletionStatusEx := Some batch_times_out\<rparr>"

definition batch_broken_port :: "unit hooks" where
  "batch_broken_port = quiet\<lparr>pGetQueuedCompletionStatusEx := Some batch_fails\<rparr>"

text \<open>A timer store whose nearest deadline is 250 ms away.\<close>

definition timer_in_250 :: "unit hooks" where
  "timer_in_250 = batch_nothing_ready\<lparr>uv_get_poll_timeout := (\<lambda>loop. 250)\<rparr>"

text \<open>
  A completion port on which a packet arrives while the caller waits: a call that does
  not wait finds nothing, a call that waits gets packet 11.  The nearest timer is 250 ms
  away.
\<close>

definition arrives_while_waiting :: "unit hooks" where
  "arrives_while_waiting =
    quiet\<lparr>uv_get_poll_timeout := (\<lambda>loop. 250),
          GetQueuedCompletionStatus :=
            (\<lambda>loop port timeout.
               if timeout = 0 then nothing_ready
               else \<lparr>success = True, lpOverlapped = Some 11, last_error = 0\<rparr>)\<rparr>"

text \<open>
  A completion port that hands back the packet 11 of a failed I/O operation: the call
  returns FALSE, the last error is \<open>ERROR_NETNAME_DELETED\<close> (64).
\<close>

definition failed_io :: "unit hooks" where
  "failed_io =
    quiet\<lparr>GetQueuedCompletionStatus :=
            (\<lambda>loop port timeout. \<lparr>success = False, lpOverlapped = Some 11, last_error = 64\<rparr>)\<rparr>"

text \<open>The callback that drops two references, in a build that defines \<open>NDEBUG\<close>.\<close>

definition unref_twice_in_prepare_release :: "unit hooks" where
  "unref_twice_in_prepare_release = unref_twice_in_prepare\<lparr>NDEBUG := True\<rparr>"

text \<open>An idle callback that drops the last reference.\<close>

definition unref_in_idle :: "unit hooks" where
  "unref_in_idle = quiet\<lparr>uv_idle_invoke := uv_unref\<rparr>"

text \<open>A loop that holds one reference, and a process before any call into the library.\<close>

definition one_ref :: uv_loop_t where
  "one_ref = zeroed\<lparr>refs := 1\<rparr>"

definition fresh_process :: "unit process" where
  "fresh_process =
    \<lparr>static_default_loop = zeroed, once_ran = (\<lambda>guard. False), heap = Map.empty,
     open_ports = {}, initialised = []\<rparr>"

text \<open>A loop with one request pending, and the process after the first \<open>uv_default_loop\<close>.\<close>

definition one_pending :: uv_loop_t where
  "one_pending = one_ref\<lparr>pending_reqs_tail := [5]\<rparr>"

definition running_process :: "unit process" where
  "running_process =
    \<lparr>static_default_loop = zeroed\<lparr>iocp := Some 7\<rparr>,
     once_ran = (\<lambda>guard. False)(uv_init_guard := True, uv_default_loop_init_guard := True),
     heap = Map.empty,
     open_ports = {7},
     initialised = [''SetErrorMode'', ''uv_winsock_init'', ''uv_winapi_init'', ''uv_fs_init'',
                    ''uv_console_init'']\<rparr>"

section \<open>Properties\<close>

lemmas sample_defs =
  quiet_def unref_in_prepare_def unref_twice_in_prepare_def broken_port_def batch_def
  batch_nothing_ready_def batch_broken_port_def batch_times_out_def batch_fails_def
  timer_in_250_def three_ready_def nothing_ready_def append_req_def one_ref_def zeroed_def
  one_pending_def arrives_while_waiting_def failed_io_def unref_twice_in_prepare_release_def
  unref_in_idle_def

lemmas tick_defs =
  uv_run_once_def UV_LOOP_ONCE_def uv_poll_def uv_poll_ex_def uv_unref_def uv_ref_def Let_def
  WAIT_TIMEOUT_def INFINITE_def ARRAY_SIZE_overlappeds_def

lemmas life_defs =
  uv_default_loop_def uv_default_loop_init_def uv_loop_new_def uv_loop_init_def uv_once_def
  uv_init_def uv_loop_delete_def uv_ok_def ERROR_OUTOFMEMORY_def Let_def

subsection \<open>The calls of the pollers\<close>

lemma uv_poll_events:
  "fst (uv_poll h loop block) =
     [Retrieval ''GetQueuedCompletionStatus'' 1 (if block then uv_get_poll_timeout h loop else 0)]"
  by (simp add: uv_poll_def Let_def)

lemma uv_poll_ex_events:
  "fst (uv_poll_ex h loop block) =
     (case pGetQueuedCompletionStatusEx h of
        None \<Rightarrow> []
      | Some call \<Rightarrow>
          [Retrieval ''GetQueuedCompletionStatusEx'' ARRAY_SIZE_overlappeds
             (if block then uv_get_poll_timeout h loop else 0)])"
  by (simp add: uv_poll_ex_def Let_def split: option.split)

subsection \<open>The shape of a tick that reaches the poll step\<close>

text \<open>
  If the poller was called with the loop \<open>s\<close> and the argument \<open>block\<close>, then \<open>block\<close> is
  the condition of the macro evaluated on \<open>s\<close>, the tick ends as the poller ends (with the
  check phase after it when it returns), and every retrieval call of the tick is the
  poller's.  The poller itself must not log a \<open>Poll\<close>; neither \<open>uv_poll\<close> nor \<open>uv_poll_ex\<close>
  does.
\<close>

lemma UV_LOOP_ONCE_reaches_poll:
  assumes member: "Poll s block \<in> set (fst (UV_LOOP_ONCE h poll loop))"
      and silent: "\<And>l b. Poll s block \<notin> set (fst (poll h l b))"
  shows "block = (idle_handles s = [] \<and> pending_reqs_tail s = [] \<and>
                  endgame_handles s = [] \<and> 0 < sint (refs s)) \<and>
         snd (UV_LOOP_ONCE h poll loop) =
           (case snd (poll h s block) of
              Inl e \<Rightarrow> Inl e
            | Inr loop7 \<Rightarrow> Inr (uv_check_invoke h loop7)) \<and>
         (\<forall>loop7. snd (poll h s block) = Inr loop7 \<longrightarrow>
            last (fst (UV_LOOP_ONCE h poll loop)) = Check_invoke) \<and>
         (\<forall>name n t. Retrieval name n t \<in> set (fst (UV_LOOP_ONCE h poll loop)) \<longrightarrow>
            Retrieval name n t \<in> set (fst (poll h s block)))"
proof -
  define loop2 where "loop2 = uv_process_timers h (uv_update_time h loop)"
  define loop5 where "loop5 = uv_process_endgames h (uv_process_reqs h
      (if pending_reqs_tail loop2 = [] \<and> endgame_handles loop2 = []
       then uv_idle_invoke h loop2 else loop2))"
  define loop6 where "loop6 = uv_prepare_invoke h loop5"
  define b6 where "b6 = (idle_handles loop6 = [] \<and> pending_reqs_tail loop6 = [] \<and>
                         endgame_handles loop6 = [] \<and> 0 < sint (refs loop6))"
  define calls where "calls = [Update_time, Process_timers] @
      (if pending_reqs_tail loop2 = [] \<and> endgame_handles loop2 = [] then [Idle_invoke] else [])
      @ [Process_reqs, Process_endgames :: 'a loop event]"
  obtain polled r where polled: "poll h loop6 b6 = (polled, r)"
    by (cases "poll h loop6 b6")
  have tick: "UV_LOOP_ONCE h poll loop =
        (if sint (refs loop5) \<le> 0 then (calls, Inr loop5)
         else case r of
                Inl e \<Rightarrow> (calls @ [Prepare_invoke, Poll loop6 b6] @ polled, Inl e)
              | Inr loop7 \<Rightarrow>
                  (calls @ [Prepare_invoke, Poll loop6 b6] @ polled @ [Check_invoke],
                   Inr (uv_check_invoke h loop7)))"
    using polled
    unfolding UV_LOOP_ONCE_def Let_def loop2_def loop5_def loop6_def b6_def calls_def
    by (simp split: sum.splits)
  have quiet_calls: "Poll s block \<notin> set calls" "\<And>name n t. Retrieval name n t \<notin> set calls"
    by (simp_all add: calls_def)
  have "Poll s block \<notin> set polled"
    using silent [of loop6 b6] by (simp add: polled)
  with member tick quiet_calls have reached: "\<not> sint (refs loop5) \<le> 0" "s = loop6" "block = b6"
    by (auto split: if_splits sum.splits)
  then show ?thesis
    using polled tick quiet_calls(2) by (auto simp: b6_def split: sum.splits)
qed

subsection \<open>The ticks of a run\<close>

text \<open>
  The same holds of every tick of the run loop: a \<open>Poll\<close> among the calls of a run that
  has ended was logged before the run began, or its \<open>block\<close> argument is the condition of
  the macro on the loop it was called with.
\<close>

lemma UV_LOOP_Poll:
  assumes run: "UV_LOOP h poll done_so_far loop = Some y"
      and silent: "\<And>l b. Poll s block \<notin> set (fst (poll h l b))"
  shows "Poll s block \<in> set (fst y) \<longrightarrow>
         Poll s block \<in> set done_so_far \<or>
         block = (idle_handles s = [] \<and> pending_reqs_tail s = [] \<and>
                  endgame_handles s = [] \<and> 0 < sint (refs s))"
proof -
  have "(\<forall>l b. Poll s block \<notin> set (fst (poll h l b))) \<longrightarrow>
        Poll s block \<in> set (fst y) \<longrightarrow>
        Poll s block \<in> set done_so_far \<or>
        block = (idle_handles s = [] \<and> pending_reqs_tail s = [] \<and>
                 endgame_handles s = [] \<and> 0 < sint (refs s))"
  proof (rule UV_LOOP.raw_induct
      [where P = "\<lambda>h poll done_so_far loop y.
          (\<forall>l b. Poll s block \<notin> set (fst (poll h l b))) \<longrightarrow>
          Poll s block \<in> set (fst y) \<longrightarrow>
          Poll s block \<in> set done_so_far \<or>
          block = (idle_handles s = [] \<and> pending_reqs_tail s = [] \<and>
                   endgame_handles s = [] \<and> 0 < sint (refs s))",
       OF _ run])
    fix run h poll done_so_far loop y
    assume later: "\<And>h poll done_so_far loop y. run h poll done_so_far loop = Some y \<Longrightarrow>
          (\<forall>l b. Poll s block \<notin> set (fst (poll h l b))) \<longrightarrow>
          Poll s block \<in> set (fst y) \<longrightarrow>
          Poll s block \<in> set done_so_far \<or>
          block = (idle_handles s = [] \<and> pending_reqs_tail s = [] \<and>
                   endgame_handles s = [] \<and> 0 < sint (refs s))"
      and body: "(if 0 < sint (refs loop)
            then case UV_LOOP_ONCE h poll loop of
                   (calls, Inl e) \<Rightarrow> Some (done_so_far @ calls, Inl e)
                 | (calls, Inr loop') \<Rightarrow> run h poll (done_so_far @ calls) loop'
            else Some (done_so_far, Inr loop)) = Some y"
    show "(\<forall>l b. Poll s block \<notin> set (fst (poll h l b))) \<longrightarrow>
          Poll s block \<in> set (fst y) \<longrightarrow>
          Poll s block \<in> set done_so_far \<or>
          block = (idle_handles s = [] \<and> pending_reqs_tail s = [] \<and>
                   endgame_handles s = [] \<and> 0 < sint (refs s))"
    proof (intro impI)
      assume silent: "\<forall>l b. Poll s block \<notin> set (fst (poll h l b))"
        and member: "Poll s block \<in> set (fst y)"
      obtain calls r where tick: "UV_LOOP_ONCE h poll loop = (calls, r)"
        by (cases "UV_LOOP_ONCE h poll loop")
      have this_tick: "block = (idle_handles s = [] \<and> pending_reqs_tail s = [] \<and>
                   endgame_handles s = [] \<and> 0 < sint (refs s))"
        if "Poll s block \<in> set calls"
        using UV_LOOP_ONCE_reaches_poll [of s block h poll loop] that silent tick by simp
      show "Poll s block \<in> set done_so_far \<or>
          block = (idle_handles s = [] \<and> pending_reqs_tail s = [] \<and>
                   endgame_handles s = [] \<and> 0 < sint (refs s))"
      proof (cases "0 < sint (refs loop)")
        case False
        with body member show ?thesis by auto
      next
        case True
        show ?thesis
        proof (cases r)
          case (Inl e)
          with True body tick member this_tick show ?thesis by auto
        next
          case (Inr loop')
          with True body tick have "run h poll (done_so_far @ calls) loop' = Some y"
            by simp
          from later [OF this] silent member this_tick show ?thesis
            by auto
        qed
      qed
    qed
  qed
  with silent show ?thesis
    by blast
qed

lemma uv_run_Poll:
  assumes "uv_run h loop = Some (calls, r)" and "Poll s block \<in> set calls"
  shows "block = (idle_handles s = [] \<and> pending_reqs_tail s = [] \<and>
                  endgame_handles s = [] \<and> 0 < sint (refs s))"
proof (cases "pGetQueuedCompletionStatusEx h")
  case None
  with assms obtain r' where "UV_LOOP h uv_poll [] loop = Some (calls, r')"
    by (auto simp: uv_run_def split: option.splits sum.splits if_splits)
  from UV_LOOP_Poll [OF this, of s block] assms(2) show ?thesis
    by (simp add: uv_poll_events)
next
  case (Some call)
  with assms obtain r' where "UV_LOOP h uv_poll_ex [] loop = Some (calls, r')"
    by (auto simp: uv_run_def split: option.splits sum.splits if_splits)
  from UV_LOOP_Poll [OF this, of s block] assms(2) show ?thesis
    by (simp add: uv_poll_ex_events Some)
qed

text \<open>A run that returns: the prepare callback drops the only reference in the first tick.\<close>

lemma run_unref_in_prepare:
  "uv_run unref_in_prepare one_ref =
     Some ([Update_time, Process_timers, Idle_invoke, Process_reqs, Process_endgames,
            Prepare_invoke, Poll zeroed False,
            Retrieval ''GetQueuedCompletionStatus'' 1 0, Check_invoke],
           Inr (0, zeroed))"
  by (simp add: uv_run_def UV_LOOP.simps tick_defs sample_defs)

subsection \<open>A run is a sequence of ticks\<close>

text \<open>
  The events a run has behind it are only carried along: a run that starts with events
  behind it is the run that starts with none, with those events in front.
\<close>

lemma UV_LOOP_later:
  assumes "UV_LOOP h poll done_so_far loop = Some y"
  shows "\<forall>earlier. UV_LOOP h poll (earlier @ done_so_far) loop = Some (earlier @ fst y, snd y)"
proof (rule UV_LOOP.raw_induct
    [where P = "\<lambda>h poll done_so_far loop y.
        \<forall>earlier. UV_LOOP h poll (earlier @ done_so_far) loop = Some (earlier @ fst y, snd y)",
     OF _ assms])
  fix run h poll done_so_far loop y
  assume later: "\<And>h poll done_so_far loop y. run h poll done_so_far loop = Some y \<Longrightarrow>
        \<forall>earlier. UV_LOOP h poll (earlier @ done_so_far) loop = Some (earlier @ fst y, snd y)"
    and body: "(if 0 < sint (refs loop)
          then case UV_LOOP_ONCE h poll loop of
                 (calls, Inl e) \<Rightarrow> Some (done_so_far @ calls, Inl e)
               | (calls, Inr loop') \<Rightarrow> run h poll (done_so_far @ calls) loop'
          else Some (done_so_far, Inr loop)) = Some y"
  obtain calls r where tick: "UV_LOOP_ONCE h poll loop = (calls, r)"
    by (cases "UV_LOOP_ONCE h poll loop")
  show "\<forall>earlier. UV_LOOP h poll (earlier @ done_so_far) loop = Some (earlier @ fst y, snd y)"
  proof
    fix earlier
    show "UV_LOOP h poll (earlier @ done_so_far) loop = Some (earlier @ fst y, snd y)"
    proof (cases "0 < sint (refs loop)")
      case False
      with body show ?thesis
        by (subst UV_LOOP.simps) auto
    next
      case True
      show ?thesis
      proof (cases r)
        case (Inl e)
        with True body tick show ?thesis
          by (subst UV_LOOP.simps) auto
      next
        case (Inr loop')
        with True body tick have "run h poll (done_so_far @ calls) loop' = Some y"
          by simp
        from later [OF this]
        have "UV_LOOP h poll (earlier @ done_so_far @ calls) loop' = Some (earlier @ fst y, snd y)"
          by blast
        with True tick Inr show ?thesis
          by (subst UV_LOOP.simps) simp
      qed
    qed
  qed
qed

lemma UV_LOOP_earlier:
  assumes "UV_LOOP h poll done_so_far loop = Some y"
  shows "\<exists>calls. fst y = done_so_far @ calls \<and> UV_LOOP h poll [] loop = Some (calls, snd y)"
proof (rule UV_LOOP.raw_induct
    [where P = "\<lambda>h poll done_so_far loop y.
        \<exists>calls. fst y = done_so_far @ calls \<and> UV_LOOP h poll [] loop = Some (calls, snd y)",
     OF _ assms])
  fix run h poll done_so_far loop y
  assume later: "\<And>h poll done_so_far loop y. run h poll done_so_far loop = Some y \<Longrightarrow>
        \<exists>calls. fst y = done_so_far @ calls \<and> UV_LOOP h poll [] loop = Some (calls, snd y)"
    and body: "(if 0 < sint (refs loop)
          then case UV_LOOP_ONCE h poll loop of
                 (calls, Inl e) \<Rightarrow> Some (done_so_far @ calls, Inl e)
               | (calls, Inr loop') \<Rightarrow> run h poll (done_so_far @ calls) loop'
          else Some (done_so_far, Inr loop)) = Some y"
  obtain calls r where tick: "UV_LOOP_ONCE h poll loop = (calls, r)"
    by (cases "UV_LOOP_ONCE h poll loop")
  show "\<exists>calls. fst y = done_so_far @ calls \<and> UV_LOOP h poll [] loop = Some (calls, snd y)"
  proof (cases "0 < sint (refs loop)")
    case False
    with body show ?thesis
      by (subst UV_LOOP.simps) auto
  next
    case True
    show ?thesis
    proof (cases r)
      case (Inl e)
      with True body tick show ?thesis
        by (subst UV_LOOP.simps) auto
    next
      case (Inr loop')
      with True body tick have "run h poll (done_so_far @ calls) loop' = Some y"
        by simp
      from later [OF this] obtain rest
        where rest: "fst y = (done_so_far @ calls) @ rest"
          "UV_LOOP h poll [] loop' = Some (rest, snd y)"
        by blast
      from UV_LOOP_later [OF rest(2)]
      have "UV_LOOP h poll (calls @ []) loop' = Some (calls @ rest, snd y)"
        by simp
      with True tick Inr have "UV_LOOP h poll [] loop = Some (calls @ rest, snd y)"
        by (subst UV_LOOP.simps) simp
      with rest(1) show ?thesis
        by simp
    qed
  qed
qed

lemma UV_LOOP_prefix:
  "UV_LOOP h poll done_so_far loop =
   map_option (\<lambda>(calls, r). (done_so_far @ calls, r)) (UV_LOOP h poll [] loop)"
proof (cases "UV_LOOP h poll [] loop")
  case None
  show ?thesis
  proof (cases "UV_LOOP h poll done_so_far loop")
    case inner: None
    with None show ?thesis by simp
  next
    case (Some y)
    from UV_LOOP_earlier [OF this] None show ?thesis
      by simp
  qed
next
  case (Some y)
  from UV_LOOP_later [OF this] have "UV_LOOP h poll (done_so_far @ []) loop =
      Some (done_so_far @ fst y, snd y)"
    by blast
  with Some show ?thesis
    by (simp add: case_prod_beta)
qed

text \<open>
  So \<open>uv_run\<close> on a loop that holds a reference is the tick of \<open>uv_run_once\<close> followed
  by \<open>uv_run\<close> on the loop that tick leaves: every tick of a run is a tick of
  \<open>uv_run_once\<close> on the loop the tick before it left, and what holds of the tick of
  \<open>uv_run_once\<close> on every loop holds of every tick of a run.  On a loop that holds no
  reference \<open>uv_run\<close> makes no tick and goes straight to its assertion.
\<close>

lemma uv_run_ticks:
  fixes h :: "'w hooks"
  shows "uv_run h loop =
    (if 0 < sint (refs loop)
     then (case uv_run_once h loop of
             (calls, Inl e) \<Rightarrow> Some (calls, Inl e)
           | (calls, Inr (status, following)) \<Rightarrow>
               map_option (\<lambda>(later, r). (calls @ later, r)) (uv_run h following))
     else if NDEBUG h \<or> refs loop = 0 then Some ([], Inr (0, loop))
     else Some ([], Inl (Assertion_failed ''loop->refs == 0'')))"
proof -
  define poll :: "'w hooks \<Rightarrow> 'w loop \<Rightarrow> bool \<Rightarrow> 'w loop outcome"
    where "poll = (if pGetQueuedCompletionStatusEx h \<noteq> None then uv_poll_ex else uv_poll)"
  have run: "uv_run h l =
      (case UV_LOOP h poll [] l of
         None \<Rightarrow> None
       | Some (calls, Inl e) \<Rightarrow> Some (calls, Inl e)
       | Some (calls, Inr loop') \<Rightarrow>
           if NDEBUG h \<or> refs loop' = 0 then Some (calls, Inr (0, loop'))
           else Some (calls, Inl (Assertion_failed ''loop->refs == 0'')))" for l
    by (simp add: uv_run_def poll_def)
  have once: "uv_run_once h loop =
      (case UV_LOOP_ONCE h poll loop of
         (calls, Inl e) \<Rightarrow> (calls, Inl e)
       | (calls, Inr loop') \<Rightarrow> (calls, Inr (0, loop')))"
    by (simp add: uv_run_once_def poll_def)
  obtain calls r where tick: "UV_LOOP_ONCE h poll loop = (calls, r)"
    by (cases "UV_LOOP_ONCE h poll loop")
  show ?thesis
  proof (cases "0 < sint (refs loop)")
    case False
    then have "UV_LOOP h poll [] loop = Some ([], Inr loop)"
      by (subst UV_LOOP.simps) simp
    with False show ?thesis
      by (simp add: run)
  next
    case True
    show ?thesis
    proof (cases r)
      case (Inl e)
      with True tick have "UV_LOOP h poll [] loop = Some (calls, Inl e)"
        by (subst UV_LOOP.simps) simp
      with True tick Inl show ?thesis
        by (simp add: run once)
    next
      case (Inr following)
      with True tick have "UV_LOOP h poll [] loop = UV_LOOP h poll calls following"
        by (subst UV_LOOP.simps) simp
      also have "\<dots> = map_option (\<lambda>(later, r). (calls @ later, r)) (UV_LOOP h poll [] following)"
        by (rule UV_LOOP_prefix)
      finally have "UV_LOOP h poll [] loop =
          map_option (\<lambda>(later, r). (calls @ later, r)) (UV_LOOP h poll [] following)" .
      with True tick Inr show ?thesis
        by (cases "UV_LOOP h poll [] following") (auto simp: run once split: sum.splits)
    qed
  qed
qed

subsection \<open>A tick, phase by phase\<close>

text \<open>
  The tick of \<open>uv_run_once\<close>, with a name for the loop after each phase: \<open>checked\<close> after
  the timers, \<open>processed\<close> after the idle phase (where it runs), the requests and the
  endgames, \<open>prepared\<close> after the prepare phase.  The tick ends at \<open>processed\<close> when no
  reference is left there; otherwise its result is the poller's, on \<open>prepared\<close> and in
  the mode \<open>block\<close>, followed by the check phase.
\<close>

lemma uv_run_once_tick:
  fixes h :: "'w hooks"
  assumes checked: "checked = uv_process_timers h (uv_update_time h loop)"
      and processed: "processed = uv_process_endgames h (uv_process_reqs h
                        (if pending_reqs_tail checked = [] \<and> endgame_handles checked = []
                         then uv_idle_invoke h checked else checked))"
      and prepared: "prepared = uv_prepare_invoke h processed"
      and block: "block = (idle_handles prepared = [] \<and> pending_reqs_tail prepared = [] \<and>
                           endgame_handles prepared = [] \<and> 0 < sint (refs prepared))"
      and poll: "poll = (if pGetQueuedCompletionStatusEx h \<noteq> None then uv_poll_ex else uv_poll)"
      and before: "before = [Update_time, Process_timers] @
                     (if pending_reqs_tail checked = [] \<and> endgame_handles checked = []
                      then [Idle_invoke] else []) @
                     [Process_reqs, Process_endgames]"
  shows "uv_run_once h loop =
    (if sint (refs processed) \<le> 0 then (before, Inr (0, processed))
     else case poll h prepared block of
            (polled, Inl e) \<Rightarrow> (before @ [Prepare_invoke, Poll prepared block] @ polled, Inl e)
          | (polled, Inr loop7) \<Rightarrow>
              (before @ [Prepare_invoke, Poll prepared block] @ polled @ [Check_invoke],
               Inr (0, uv_check_invoke h loop7)))"
proof -
  obtain polled r where polled: "poll h prepared block = (polled, r)"
    by (cases "poll h prepared block")
  have tick: "UV_LOOP_ONCE h poll loop =
      (if sint (refs processed) \<le> 0 then (before, Inr processed)
       else case r of
              Inl e \<Rightarrow> (before @ [Prepare_invoke, Poll prepared block] @ polled, Inl e)
            | Inr loop7 \<Rightarrow>
                (before @ [Prepare_invoke, Poll prepared block] @ polled @ [Check_invoke],
                 Inr (uv_check_invoke h loop7)))"
    using polled
    unfolding UV_LOOP_ONCE_def Let_def checked processed prepared block before
    by (simp split: sum.splits)
  have "uv_run_once h loop =
      (case UV_LOOP_ONCE h poll loop of
         (calls, Inl e) \<Rightarrow> (calls, Inl e)
       | (calls, Inr loop') \<Rightarrow> (calls, Inr (0, loop')))"
    by (cases "pGetQueuedCompletionStatusEx h") (simp_all add: uv_run_once_def poll)
  with tick polled show ?thesis
    by (simp split: sum.splits)
qed

lemma retrievals_only:
  fixes h :: "'w hooks"
  assumes "poll = (if pGetQueuedCompletionStatusEx h \<noteq> None then uv_poll_ex else uv_poll)"
  shows "Poll s b \<notin> set (fst (poll h l bl))" "Idle_invoke \<notin> set (fst (poll h l bl))"
    "Process_reqs \<notin> set (fst (poll h l bl))" "Check_invoke \<notin> set (fst (poll h l bl))"
  by (simp_all add: assms uv_poll_events uv_poll_ex_events split: option.splits)

subsection \<open>C1: the mode of the poll\<close>

text \<open>
  C1, as the code has it.  In a tick, let \<open>prepared\<close> be the loop at the moment of the
  call of the poller, \<open>block\<close> the mode the tick computes there, and \<open>timeout\<close> the
  timeout that mode gives.  The poll must not block exactly when the idle set, the
  pending-request queue or the endgame queue is non-empty, or no reference is held
  (C1 as stated leaves the last case out); then the timeout is zero.  A tick that
  reaches the poll step calls the poller once, on \<open>prepared\<close> and in that mode, every
  retrieval of the tick is made with that timeout, and the tick's result is the
  poller's result on \<open>prepared\<close> in that mode followed by the check phase: with the
  single-retrieval strategy it is computed from \<open>r\<close>, what the kernel answers to
  \<open>GetQueuedCompletionStatus\<close> with that timeout, with the batch strategy from \<open>rx\<close>,
  what it answers to \<open>GetQueuedCompletionStatusEx\<close> with that timeout.  A tick that
  finds no reference after the endgames calls no poller.  The ticks of \<open>uv_run\<close> are
  ticks of \<open>uv_run_once\<close>, and every poll of a run that ends is in the mode computed
  from the loop it is called on.
\<close>

theorem poll_mode:
  fixes h :: "'w hooks"
  assumes checked: "checked = uv_process_timers h (uv_update_time h loop)"
      and processed: "processed = uv_process_endgames h (uv_process_reqs h
                        (if pending_reqs_tail checked = [] \<and> endgame_handles checked = []
                         then uv_idle_invoke h checked else checked))"
      and prepared: "prepared = uv_prepare_invoke h processed"
      and block: "block = (idle_handles prepared = [] \<and> pending_reqs_tail prepared = [] \<and>
                           endgame_handles prepared = [] \<and> 0 < sint (refs prepared))"
      and timeout: "timeout = (if block then uv_get_poll_timeout h prepared else 0)"
      and poll: "poll = (if pGetQueuedCompletionStatusEx h \<noteq> None then uv_poll_ex else uv_poll)"
      and answer: "r = GetQueuedCompletionStatus h prepared (iocp prepared) timeout"
  shows
  "(\<not> block) = (idle_handles prepared \<noteq> [] \<or> pending_reqs_tail prepared \<noteq> [] \<or>
                 endgame_handles prepared \<noteq> [] \<or> sint (refs prepared) \<le> 0) \<and>
   (\<not> block \<longrightarrow> timeout = 0) \<and>
   (0 < sint (refs processed) \<longrightarrow>
      (\<forall>s b. (Poll s b \<in> set (fst (uv_run_once h loop))) = (s = prepared \<and> b = block)) \<and>
      (\<forall>name n t. Retrieval name n t \<in> set (fst (uv_run_once h loop)) \<longrightarrow> t = timeout) \<and>
      snd (uv_run_once h loop) =
        (case snd (poll h prepared block) of
           Inl e \<Rightarrow> Inl e
         | Inr polled \<Rightarrow> Inr (0, uv_check_invoke h polled)) \<and>
      (pGetQueuedCompletionStatusEx h = None \<longrightarrow>
         snd (uv_run_once h loop) =
           (case lpOverlapped r of
              Some overlapped \<Rightarrow>
                Inr (0, uv_check_invoke h
                          (uv_insert_pending_req h prepared (uv_overlapped_to_req h overlapped)))
            | None \<Rightarrow>
                if last_error r \<noteq> WAIT_TIMEOUT
                then Inl (Fatal (last_error r) ''GetQueuedCompletionStatus'')
                else Inr (0, uv_check_invoke h prepared))) \<and>
      (pGetQueuedCompletionStatusEx h = Some call \<and>
       rx = call prepared (iocp prepared) ARRAY_SIZE_overlappeds timeout \<longrightarrow>
         snd (uv_run_once h loop) =
           (if success_ex rx
            then Inr (0, uv_check_invoke h (insert_dequeued h prepared (removed rx)))
            else if last_error_ex rx \<noteq> WAIT_TIMEOUT
            then Inl (Fatal (last_error_ex rx) ''GetQueuedCompletionStatusEx'')
            else Inr (0, uv_check_invoke h prepared)))) \<and>
   (sint (refs processed) \<le> 0 \<longrightarrow>
      (\<forall>s b. Poll s b \<notin> set (fst (uv_run_once h loop))) \<and>
      snd (uv_run_once h loop) = Inr (0, processed)) \<and>
   (uv_run h loop = Some (calls, result) \<and> Poll s b \<in> set calls \<longrightarrow>
      b = (idle_handles s = [] \<and> pending_reqs_tail s = [] \<and>
           endgame_handles s = [] \<and> 0 < sint (refs s))) \<and>
   uv_run h loop =
     (if 0 < sint (refs loop)
      then (case uv_run_once h loop of
              (calls, Inl e) \<Rightarrow> Some (calls, Inl e)
            | (calls, Inr (status, following)) \<Rightarrow>
                map_option (\<lambda>(later, r). (calls @ later, r)) (uv_run h following))
      else if NDEBUG h \<or> refs loop = 0 then Some ([], Inr (0, loop))
      else Some ([], Inl (Assertion_failed ''loop->refs == 0'')))"
proof -
  note tick = uv_run_once_tick [OF checked processed prepared block poll refl]
  note silent = retrievals_only [OF poll]
  obtain polled outcome where polled: "poll h prepared block = (polled, outcome)"
    by (cases "poll h prepared block")
  have no_poll: "Poll s b \<notin> set polled" for s b
    using silent(1) [of s b prepared block] by (simp add: polled)
  have stopped: "(\<forall>s b. Poll s b \<notin> set (fst (uv_run_once h loop))) \<and>
      snd (uv_run_once h loop) = Inr (0, processed)"
    if "sint (refs processed) \<le> 0"
    using that by (simp add: tick)
  have timeouts: "t = timeout" if "Retrieval name n t \<in> set polled" for name n t
    using that polled unfolding timeout
    by (cases "pGetQueuedCompletionStatusEx h")
       (auto simp: poll uv_poll_def uv_poll_ex_def Let_def split: if_splits)
  have reached: "(\<forall>s b. (Poll s b \<in> set (fst (uv_run_once h loop))) = (s = prepared \<and> b = block)) \<and>
      (\<forall>name n t. Retrieval name n t \<in> set (fst (uv_run_once h loop)) \<longrightarrow> t = timeout) \<and>
      snd (uv_run_once h loop) =
        (case snd (poll h prepared block) of
           Inl e \<Rightarrow> Inl e
         | Inr polled \<Rightarrow> Inr (0, uv_check_invoke h polled))"
    if "0 < sint (refs processed)"
    using that no_poll timeouts by (cases outcome) (auto simp: tick polled)
  have single: "snd (poll h prepared block) =
      (case lpOverlapped r of
         Some overlapped \<Rightarrow>
           Inr (uv_insert_pending_req h prepared (uv_overlapped_to_req h overlapped))
       | None \<Rightarrow>
           if last_error r \<noteq> WAIT_TIMEOUT
           then Inl (Fatal (last_error r) ''GetQueuedCompletionStatus'')
           else Inr prepared)"
    if "pGetQueuedCompletionStatusEx h = None"
    using that unfolding answer timeout by (simp add: poll uv_poll_def Let_def)
  have batch: "snd (poll h prepared block) =
      (if success_ex rx then Inr (insert_dequeued h prepared (removed rx))
       else if last_error_ex rx \<noteq> WAIT_TIMEOUT
       then Inl (Fatal (last_error_ex rx) ''GetQueuedCompletionStatusEx'')
       else Inr prepared)"
    if "pGetQueuedCompletionStatusEx h = Some call"
      and "rx = call prepared (iocp prepared) ARRAY_SIZE_overlappeds timeout"
    using that unfolding timeout by (simp add: poll uv_poll_ex_def Let_def)
  have single_tick: "snd (uv_run_once h loop) =
           (case lpOverlapped r of
              Some overlapped \<Rightarrow>
                Inr (0, uv_check_invoke h
                          (uv_insert_pending_req h prepared (uv_overlapped_to_req h overlapped)))
            | None \<Rightarrow>
                if last_error r \<noteq> WAIT_TIMEOUT
                then Inl (Fatal (last_error r) ''GetQueuedCompletionStatus'')
                else Inr (0, uv_check_invoke h prepared))"
    if "0 < sint (refs processed)" and "pGetQueuedCompletionStatusEx h = None"
    using reached [OF that(1)] single [OF that(2)] by (simp split: option.splits)
  have batch_tick: "snd (uv_run_once h loop) =
           (if success_ex rx
            then Inr (0, uv_check_invoke h (insert_dequeued h prepared (removed rx)))
            else if last_error_ex rx \<noteq> WAIT_TIMEOUT
            then Inl (Fatal (last_error_ex rx) ''GetQueuedCompletionStatusEx'')
            else Inr (0, uv_check_invoke h prepared))"
    if "0 < sint (refs processed)" and "pGetQueuedCompletionStatusEx h = Some call"
      and "rx = call prepared (iocp prepared) ARRAY_SIZE_overlappeds timeout"
    using reached [OF that(1)] batch [OF that(2,3)] by simp
  have mode: "(\<not> block) = (idle_handles prepared \<noteq> [] \<or> pending_reqs_tail prepared \<noteq> [] \<or>
                 endgame_handles prepared \<noteq> [] \<or> sint (refs prepared) \<le> 0)"
    unfolding block by auto
  have zero: "timeout = 0" if "\<not> block"
    using that by (simp add: timeout)
  have in_run: "b = (idle_handles s = [] \<and> pending_reqs_tail s = [] \<and>
                      endgame_handles s = [] \<and> 0 < sint (refs s))"
    if "uv_run h loop = Some (calls, result)" and "Poll s b \<in> set calls"
    using that by (rule uv_run_Poll)
  from mode zero reached single_tick batch_tick stopped in_run uv_run_ticks [of h loop]
  show ?thesis
    by blast
qed

text \<open>
  C1, exercised.  A packet arrives on the port only while the caller waits.  A loop
  with one reference and nothing queued polls in blocking mode and gets the packet; a
  loop with a request pending polls without blocking and finds nothing; a loop whose
  prepare callback drops the only reference polls without blocking; a loop without a
  reference does not poll.
\<close>

theorem poll_mode_witness:
  "snd (uv_run_once arrives_while_waiting one_ref) =
     Inr (0, one_ref\<lparr>pending_reqs_tail := [11]\<rparr>) \<and>
   Poll one_ref True \<in> set (fst (uv_run_once arrives_while_waiting one_ref)) \<and>
   snd (uv_run_once arrives_while_waiting one_pending) = Inr (0, one_pending) \<and>
   Poll one_pending False \<in> set (fst (uv_run_once arrives_while_waiting one_pending)) \<and>
   snd (uv_run_once unref_in_prepare one_ref) = Inr (0, zeroed) \<and>
   Poll zeroed False \<in> set (fst (uv_run_once unref_in_prepare one_ref)) \<and>
   snd (uv_run_once quiet zeroed) = Inr (0, zeroed)"
proof -
  note waiting = poll_mode
    [where h = arrives_while_waiting and loop = one_ref and call = batch_times_out
       and rx = undefined and calls = "[]" and result = "Inr (0, one_ref)" and s = one_ref
       and b = True,
     OF refl refl refl refl refl refl refl]
  note busy = poll_mode
    [where h = arrives_while_waiting and loop = one_pending and call = batch_times_out
       and rx = undefined and calls = "[]" and result = "Inr (0, one_ref)" and s = one_ref
       and b = True,
     OF refl refl refl refl refl refl refl]
  note last_ref = poll_mode
    [where h = unref_in_prepare and loop = one_ref and call = batch_times_out
       and rx = undefined and calls = "[]" and result = "Inr (0, one_ref)" and s = one_ref
       and b = True,
     OF refl refl refl refl refl refl refl]
  note unreferenced = poll_mode
    [where h = quiet and loop = zeroed and call = batch_times_out
       and rx = undefined and calls = "[]" and result = "Inr (0, one_ref)" and s = one_ref
       and b = True,
     OF refl refl refl refl refl refl refl]
  have 1: "snd (uv_run_once arrives_while_waiting one_ref) =
             Inr (0, one_ref\<lparr>pending_reqs_tail := [11]\<rparr>) \<and>
           Poll one_ref True \<in> set (fst (uv_run_once arrives_while_waiting one_ref))"
    using waiting by (simp add: sample_defs uv_poll_def uv_poll_ex_def Let_def)
  have 2: "snd (uv_run_once arrives_while_waiting one_pending) = Inr (0, one_pending) \<and>
           Poll one_pending False \<in> set (fst (uv_run_once arrives_while_waiting one_pending))"
    using busy by (simp add: sample_defs uv_poll_def uv_poll_ex_def Let_def)
  have 3: "snd (uv_run_once unref_in_prepare one_ref) = Inr (0, zeroed) \<and>
           Poll zeroed False \<in> set (fst (uv_run_once unref_in_prepare one_ref))"
    using last_ref by (simp add: sample_defs uv_unref_def uv_poll_def uv_poll_ex_def Let_def)
  have 4: "snd (uv_run_once quiet zeroed) = Inr (0, zeroed)"
    using unreferenced by (simp add: sample_defs uv_poll_def uv_poll_ex_def Let_def)
  from 1 2 3 4 show ?thesis
    by simp
qed

text \<open>
  C1 as stated fails on a tick whose prepare callback drops the last reference: the
  idle set, the pending-request queue and the endgame queue are all empty at the call
  of the poller, and the poller is invoked in non-blocking mode, with timeout 0.
\<close>

theorem nonblocking_poll_with_empty_sets:
  "fst (uv_run_once unref_in_prepare one_ref) =
     [Update_time, Process_timers, Idle_invoke, Process_reqs, Process_endgames, Prepare_invoke,
      Poll (uv_unref one_ref) False, Retrieval ''GetQueuedCompletionStatus'' 1 0, Check_invoke] \<and>
   idle_handles (uv_unref one_ref) = [] \<and>
   pending_reqs_tail (uv_unref one_ref) = [] \<and>
   endgame_handles (uv_unref one_ref) = []"
  by (simp add: tick_defs sample_defs)

subsection \<open>C2: wait-timeouts and failures of the retrieval\<close>

text \<open>
  C2, as the code has it.  Let \<open>r\<close> be what the kernel answers to the call \<open>uv_poll\<close>
  makes, and \<open>rx\<close> what it answers to the call \<open>uv_poll_ex\<close> makes.  A retrieval that
  brings back no packet (\<open>overlapped\<close> is \<open>NULL\<close>; the batch call returns false) and whose
  last error is \<open>WAIT_TIMEOUT\<close> leaves the loop as it was; with any other last error
  the poller ends the process with that error code and the name of the call.  A
  single retrieval that brings back a packet is not a failure for \<open>uv_poll\<close>, whatever
  the call returned and whatever the last error: the request of the packet is inserted
  (as stated, C2 has every such failure escalate).  In a tick that
  reaches the poll step, a poller that leaves the loop as it was lets the tick proceed
  to the check phase and return 0, and a poller that ends the process ends the tick
  with the same error.  The ticks of \<open>uv_run\<close> are ticks of \<open>uv_run_once\<close>.
\<close>

theorem no_packet_timeout_absorbed_other_failure_fatal:
  fixes h :: "'w hooks"
  assumes answer: "r = GetQueuedCompletionStatus h loop (iocp loop)
                         (if block then uv_get_poll_timeout h loop else 0)"
      and checked: "checked = uv_process_timers h (uv_update_time h start)"
      and processed: "processed = uv_process_endgames h (uv_process_reqs h
                        (if pending_reqs_tail checked = [] \<and> endgame_handles checked = []
                         then uv_idle_invoke h checked else checked))"
      and prepared: "prepared = uv_prepare_invoke h processed"
      and mode: "mode = (idle_handles prepared = [] \<and> pending_reqs_tail prepared = [] \<and>
                         endgame_handles prepared = [] \<and> 0 < sint (refs prepared))"
      and poll: "poll = (if pGetQueuedCompletionStatusEx h \<noteq> None then uv_poll_ex else uv_poll)"
  shows
  "(lpOverlapped r = None \<and> last_error r = WAIT_TIMEOUT \<longrightarrow>
      snd (uv_poll h loop block) = Inr loop) \<and>
   (lpOverlapped r = None \<and> last_error r \<noteq> WAIT_TIMEOUT \<longrightarrow>
      snd (uv_poll h loop block) = Inl (Fatal (last_error r) ''GetQueuedCompletionStatus'')) \<and>
   (lpOverlapped r = Some overlapped \<longrightarrow>
      snd (uv_poll h loop block) =
        Inr (uv_insert_pending_req h loop (uv_overlapped_to_req h overlapped))) \<and>
   (pGetQueuedCompletionStatusEx h = Some call \<and>
    rx = call loop (iocp loop) ARRAY_SIZE_overlappeds
           (if block then uv_get_poll_timeout h loop else 0) \<and>
    \<not> success_ex rx \<and> last_error_ex rx = WAIT_TIMEOUT \<longrightarrow>
      snd (uv_poll_ex h loop block) = Inr loop) \<and>
   (pGetQueuedCompletionStatusEx h = Some call \<and>
    rx = call loop (iocp loop) ARRAY_SIZE_overlappeds
           (if block then uv_get_poll_timeout h loop else 0) \<and>
    \<not> success_ex rx \<and> last_error_ex rx \<noteq> WAIT_TIMEOUT \<longrightarrow>
      snd (uv_poll_ex h loop block) =
        Inl (Fatal (last_error_ex rx) ''GetQueuedCompletionStatusEx'')) \<and>
   (0 < sint (refs processed) \<and> snd (poll h prepared mode) = Inr prepared \<longrightarrow>
      snd (uv_run_once h start) = Inr (0, uv_check_invoke h prepared) \<and>
      last (fst (uv_run_once h start)) = Check_invoke) \<and>
   (0 < sint (refs processed) \<and> snd (poll h prepared mode) = Inl e \<longrightarrow>
      snd (uv_run_once h start) = Inl e) \<and>
   uv_run h start =
     (if 0 < sint (refs start)
      then (case uv_run_once h start of
              (calls, Inl e) \<Rightarrow> Some (calls, Inl e)
            | (calls, Inr (status, following)) \<Rightarrow>
                map_option (\<lambda>(later, r). (calls @ later, r)) (uv_run h following))
      else if NDEBUG h \<or> refs start = 0 then Some ([], Inr (0, start))
      else Some ([], Inl (Assertion_failed ''loop->refs == 0'')))"
proof -
  note tick = uv_run_once_tick [OF checked processed prepared mode poll refl]
  have proceeds: "snd (uv_run_once h start) = Inr (0, uv_check_invoke h prepared) \<and>
      last (fst (uv_run_once h start)) = Check_invoke"
    if "0 < sint (refs processed)" and "snd (poll h prepared mode) = Inr prepared"
    using that by (cases "poll h prepared mode") (simp add: tick)
  have escalates: "snd (uv_run_once h start) = Inl e"
    if "0 < sint (refs processed)" and "snd (poll h prepared mode) = Inl e"
    using that by (cases "poll h prepared mode") (simp add: tick)
  have single: "snd (uv_poll h loop block) =
      (case lpOverlapped r of
         Some overlapped \<Rightarrow>
           Inr (uv_insert_pending_req h loop (uv_overlapped_to_req h overlapped))
       | None \<Rightarrow>
           if last_error r = WAIT_TIMEOUT then Inr loop
           else Inl (Fatal (last_error r) ''GetQueuedCompletionStatus''))"
    unfolding answer by (simp add: uv_poll_def Let_def split: option.split)
  have batch: "snd (uv_poll_ex h loop block) =
      (if last_error_ex rx = WAIT_TIMEOUT then Inr loop
       else Inl (Fatal (last_error_ex rx) ''GetQueuedCompletionStatusEx''))"
    if "pGetQueuedCompletionStatusEx h = Some call"
      and "rx = call loop (iocp loop) ARRAY_SIZE_overlappeds
                  (if block then uv_get_poll_timeout h loop else 0)"
      and "\<not> success_ex rx"
    using that by (simp add: uv_poll_ex_def Let_def)
  have pollers: "(lpOverlapped r = None \<and> last_error r = WAIT_TIMEOUT \<longrightarrow>
          snd (uv_poll h loop block) = Inr loop) \<and>
       (lpOverlapped r = None \<and> last_error r \<noteq> WAIT_TIMEOUT \<longrightarrow>
          snd (uv_poll h loop block) = Inl (Fatal (last_error r) ''GetQueuedCompletionStatus'')) \<and>
       (lpOverlapped r = Some overlapped \<longrightarrow>
          snd (uv_poll h loop block) =
            Inr (uv_insert_pending_req h loop (uv_overlapped_to_req h overlapped))) \<and>
       (pGetQueuedCompletionStatusEx h = Some call \<and>
        rx = call loop (iocp loop) ARRAY_SIZE_overlappeds
               (if block then uv_get_poll_timeout h loop else 0) \<and>
        \<not> success_ex rx \<and> last_error_ex rx = WAIT_TIMEOUT \<longrightarrow>
          snd (uv_poll_ex h loop block) = Inr loop) \<and>
       (pGetQueuedCompletionStatusEx h = Some call \<and>
        rx = call loop (iocp loop) ARRAY_SIZE_overlappeds
               (if block then uv_get_poll_timeout h loop else 0) \<and>
        \<not> success_ex rx \<and> last_error_ex rx \<noteq> WAIT_TIMEOUT \<longrightarrow>
          snd (uv_poll_ex h loop block) =
            Inl (Fatal (last_error_ex rx) ''GetQueuedCompletionStatusEx'')) \<and>
       (0 < sint (refs processed) \<and> snd (poll h prepared mode) = Inr prepared \<longrightarrow>
          snd (uv_run_once h start) = Inr (0, uv_check_invoke h prepared) \<and>
          last (fst (uv_run_once h start)) = Check_invoke) \<and>
       (0 < sint (refs processed) \<and> snd (poll h prepared mode) = Inl e \<longrightarrow>
          snd (uv_run_once h start) = Inl e)"
    using proceeds escalates batch by (auto simp: single)
  from pollers uv_run_ticks [of h start] show ?thesis
    by blast
qed

text \<open>
  C2, exercised on a port with nothing ready, a port that fails with error 6, a port
  that hands back the packet of a failed operation, and the same for the batch call.
\<close>

theorem no_packet_timeout_absorbed_other_failure_fatal_witness:
  "snd (uv_poll quiet one_ref True) = Inr one_ref \<and>
   snd (uv_poll broken_port one_ref True) = Inl (Fatal 6 ''GetQueuedCompletionStatus'') \<and>
   snd (uv_poll failed_io one_ref True) = Inr (one_ref\<lparr>pending_reqs_tail := [11]\<rparr>) \<and>
   snd (uv_poll_ex batch_nothing_ready one_ref True) = Inr one_ref \<and>
   snd (uv_poll_ex batch_broken_port one_ref True) =
     Inl (Fatal 6 ''GetQueuedCompletionStatusEx'') \<and>
   snd (uv_run_once quiet one_ref) = Inr (0, one_ref) \<and>
   last (fst (uv_run_once quiet one_ref)) = Check_invoke \<and>
   snd (uv_run_once broken_port one_ref) = Inl (Fatal 6 ''GetQueuedCompletionStatus'')"
proof -
  have single:
    "pGetQueuedCompletionStatusEx quiet = None"
    "pGetQueuedCompletionStatusEx broken_port = None"
    by (simp_all add: sample_defs)
  have batch:
    "pGetQueuedCompletionStatusEx batch_nothing_ready = Some batch_times_out"
    "pGetQueuedCompletionStatusEx batch_broken_port = Some batch_fails"
    by (simp_all add: sample_defs)
  have 1: "snd (uv_poll quiet one_ref True) = Inr one_ref"
    using no_packet_timeout_absorbed_other_failure_fatal
      [where h = quiet and loop = one_ref and block = True and start = one_ref
         and overlapped = 0 and call = batch_times_out and rx = undefined
         and e = "Fatal 6 ''GetQueuedCompletionStatus''",
       OF refl refl refl refl refl refl]
    by (simp add: sample_defs)
  have 2: "snd (uv_poll broken_port one_ref True) = Inl (Fatal 6 ''GetQueuedCompletionStatus'')"
    using no_packet_timeout_absorbed_other_failure_fatal
      [where h = broken_port and loop = one_ref and block = True and start = one_ref
         and overlapped = 0 and call = batch_times_out and rx = undefined
         and e = "Fatal 6 ''GetQueuedCompletionStatus''",
       OF refl refl refl refl refl refl]
    by (simp add: sample_defs WAIT_TIMEOUT_def)
  have 3: "snd (uv_poll failed_io one_ref True) = Inr (one_ref\<lparr>pending_reqs_tail := [11]\<rparr>)"
    using no_packet_timeout_absorbed_other_failure_fatal
      [where h = failed_io and loop = one_ref and block = True and start = one_ref
         and overlapped = 11 and call = batch_times_out and rx = undefined
         and e = "Fatal 6 ''GetQueuedCompletionStatus''",
       OF refl refl refl refl refl refl]
    by (simp add: sample_defs)
  have 4: "snd (uv_poll_ex batch_nothing_ready one_ref True) = Inr one_ref"
    using no_packet_timeout_absorbed_other_failure_fatal
      [where h = batch_nothing_ready and loop = one_ref and block = True and start = one_ref
         and overlapped = 0 and call = batch_times_out
         and rx = "batch_times_out one_ref (iocp one_ref) ARRAY_SIZE_overlappeds
                     (if True then uv_get_poll_timeout batch_nothing_ready one_ref else 0)"
         and e = "Fatal 6 ''GetQueuedCompletionStatus''",
       OF refl refl refl refl refl refl]
      batch(1)
    by (simp add: batch_times_out_def)
  have 5: "snd (uv_poll_ex batch_broken_port one_ref True) =
     Inl (Fatal 6 ''GetQueuedCompletionStatusEx'')"
    using no_packet_timeout_absorbed_other_failure_fatal
      [where h = batch_broken_port and loop = one_ref and block = True and start = one_ref
         and overlapped = 0 and call = batch_fails
         and rx = "batch_fails one_ref (iocp one_ref) ARRAY_SIZE_overlappeds
                     (if True then uv_get_poll_timeout batch_broken_port one_ref else 0)"
         and e = "Fatal 6 ''GetQueuedCompletionStatus''",
       OF refl refl refl refl refl refl]
      batch(2)
    by (simp add: batch_fails_def WAIT_TIMEOUT_def)
  have 6: "snd (uv_run_once quiet one_ref) = Inr (0, one_ref) \<and>
           last (fst (uv_run_once quiet one_ref)) = Check_invoke"
    using no_packet_timeout_absorbed_other_failure_fatal
      [where h = quiet and loop = one_ref and block = True and start = one_ref
         and overlapped = 0 and call = batch_times_out and rx = undefined
         and e = "Fatal 6 ''GetQueuedCompletionStatus''",
       OF refl refl refl refl refl refl]
      1
    by (simp add: sample_defs)
  have 7: "snd (uv_run_once broken_port one_ref) = Inl (Fatal 6 ''GetQueuedCompletionStatus'')"
    using no_packet_timeout_absorbed_other_failure_fatal
      [where h = broken_port and loop = one_ref and block = True and start = one_ref
         and overlapped = 0 and call = batch_times_out and rx = undefined
         and e = "Fatal 6 ''GetQueuedCompletionStatus''",
       OF refl refl refl refl refl refl]
      2
    by (simp add: sample_defs)
  from 1 2 3 4 5 6 7 show ?thesis
    by simp
qed

text \<open>
  C2 as stated fails on a retrieval that fails with a packet: the call returns
  \<open>FALSE\<close>, the last error is 64, which is not \<open>WAIT_TIMEOUT\<close>, and \<open>uv_poll\<close> inserts the
  request of the packet; the tick returns 0.
\<close>

theorem failed_call_with_packet_is_not_fatal:
  "success (GetQueuedCompletionStatus failed_io one_ref (iocp one_ref) INFINITE) = False \<and>
   last_error (GetQueuedCompletionStatus failed_io one_ref (iocp one_ref) INFINITE) = 64 \<and>
   WAIT_TIMEOUT = 258 \<and>
   uv_poll failed_io one_ref True =
     ([Retrieval ''GetQueuedCompletionStatus'' 1 INFINITE],
      Inr (one_ref\<lparr>pending_reqs_tail := [11]\<rparr>)) \<and>
   snd (uv_run_once failed_io one_ref) = Inr (0, one_ref\<lparr>pending_reqs_tail := [11]\<rparr>)"
  by (simp add: tick_defs sample_defs)

subsection \<open>C3: the reference count when a run ends\<close>

text \<open>
  The \<open>while\<close> loop of \<open>UV_LOOP\<close> is left only on a loop whose reference count is not
  positive.
\<close>

lemma UV_LOOP_exit_any:
  assumes "UV_LOOP h poll done_so_far loop = Some y"
  shows "\<forall>calls loop'. y = (calls, Inr loop') \<longrightarrow> sint (refs loop') \<le> 0"
  by (rule UV_LOOP.raw_induct
        [where P = "\<lambda>h poll done_so_far loop y.
                      \<forall>calls loop'. y = (calls, Inr loop') \<longrightarrow> sint (refs loop') \<le> 0",
         OF _ assms])
     (auto split: if_splits prod.splits sum.splits)

lemma UV_LOOP_exit:
  "UV_LOOP h poll done_so_far loop = Some (calls, Inr loop') \<Longrightarrow> sint (refs loop') \<le> 0"
  using UV_LOOP_exit_any by blast

text \<open>
  C3, as the code has it.  When the \<open>while\<close> loop of \<open>uv_run\<close> ends, on \<open>loop'\<close>, the
  reference count is not positive, for every behaviour of the callbacks, and \<open>uv_run\<close>
  returns 0 if the build defines \<open>NDEBUG\<close> or the count is 0; otherwise the assertion
  fails and the process is aborted.  Hence when \<open>uv_run\<close> returns, on \<open>loop'\<close>, the loop
  ended on \<open>loop'\<close>, the count is not positive, and it is exactly 0 in a build that
  checks assertions.  The count can be negative when the loop ends.
\<close>

theorem run_loop_exit:
  fixes h :: "'w hooks"
  assumes poll: "poll = (if pGetQueuedCompletionStatusEx h \<noteq> None then uv_poll_ex else uv_poll)"
  shows
  "(UV_LOOP h poll [] loop = Some (calls, Inr loop') \<longrightarrow>
      sint (uv_loop_refcount loop') \<le> 0 \<and>
      uv_run h loop =
        (if NDEBUG h \<or> uv_loop_refcount loop' = 0 then Some (calls, Inr (0, loop'))
         else Some (calls, Inl (Assertion_failed ''loop->refs == 0'')))) \<and>
   (uv_run h loop = Some (calls, Inr (status, loop')) \<longrightarrow>
      UV_LOOP h poll [] loop = Some (calls, Inr loop') \<and>
      sint (uv_loop_refcount loop') \<le> 0 \<and>
      (\<not> NDEBUG h \<longrightarrow> uv_loop_refcount loop' = 0))"
proof -
  have run: "uv_run h loop =
      (case UV_LOOP h poll [] loop of
         None \<Rightarrow> None
       | Some (calls, Inl e) \<Rightarrow> Some (calls, Inl e)
       | Some (calls, Inr loop') \<Rightarrow>
           if NDEBUG h \<or> refs loop' = 0 then Some (calls, Inr (0, loop'))
           else Some (calls, Inl (Assertion_failed ''loop->refs == 0'')))"
    by (cases "pGetQueuedCompletionStatusEx h") (simp_all add: uv_run_def poll)
  show ?thesis
  proof (intro conjI impI)
    assume left: "UV_LOOP h poll [] loop = Some (calls, Inr loop')"
    from UV_LOOP_exit [OF left] show "sint (uv_loop_refcount loop') \<le> 0"
      by (simp add: uv_loop_refcount_def)
    from left show "uv_run h loop =
        (if NDEBUG h \<or> uv_loop_refcount loop' = 0 then Some (calls, Inr (0, loop'))
         else Some (calls, Inl (Assertion_failed ''loop->refs == 0'')))"
      by (simp add: run uv_loop_refcount_def)
  next
    assume returned: "uv_run h loop = Some (calls, Inr (status, loop'))"
    then obtain y where y: "UV_LOOP h poll [] loop = Some y"
      by (cases "UV_LOOP h poll [] loop") (simp_all add: run)
    obtain calls' r where parts: "y = (calls', r)"
      by (cases y)
    from returned y parts obtain left where left: "r = Inr left"
      by (cases r) (simp_all add: run)
    from returned y parts left have same: "calls' = calls" "left = loop'"
      and checked: "NDEBUG h \<or> refs loop' = 0"
      by (simp_all add: run split: if_splits)
    from y parts left same show exit: "UV_LOOP h poll [] loop = Some (calls, Inr loop')"
      by simp
    from UV_LOOP_exit [OF exit] show "sint (uv_loop_refcount loop') \<le> 0"
      by (simp add: uv_loop_refcount_def)
    from checked show "uv_loop_refcount loop' = 0" if "\<not> NDEBUG h"
      using that by (simp add: uv_loop_refcount_def)
  qed
qed

text \<open>
  A prepare callback that drops two references where one is held: the loop ends with
  the count at -1.  A build that checks assertions aborts; a build that defines
  \<open>NDEBUG\<close> returns 0.
\<close>

lemma run_assertion_can_fail:
  "uv_run unref_twice_in_prepare one_ref =
     Some ([Update_time, Process_timers, Idle_invoke, Process_reqs, Process_endgames,
            Prepare_invoke, Poll (zeroed\<lparr>refs := - 1\<rparr>) False,
            Retrieval ''GetQueuedCompletionStatus'' 1 0, Check_invoke],
           Inl (Assertion_failed ''loop->refs == 0''))"
  by (simp add: uv_run_def UV_LOOP.simps tick_defs sample_defs)

lemma run_release_returns_negative:
  "uv_run unref_twice_in_prepare_release one_ref =
     Some ([Update_time, Process_timers, Idle_invoke, Process_reqs, Process_endgames,
            Prepare_invoke, Poll (zeroed\<lparr>refs := - 1\<rparr>) False,
            Retrieval ''GetQueuedCompletionStatus'' 1 0, Check_invoke],
           Inr (0, zeroed\<lparr>refs := - 1\<rparr>))"
  by (simp add: uv_run_def UV_LOOP.simps tick_defs sample_defs)

text \<open>
  C3, exercised on a run that ends with the count at 0 in a build that checks
  assertions, and on one that returns with the count at -1 in a build that does not.
\<close>

theorem run_loop_exit_witness:
  "uv_run unref_in_prepare one_ref =
     Some ([Update_time, Process_timers, Idle_invoke, Process_reqs, Process_endgames,
            Prepare_invoke, Poll zeroed False,
            Retrieval ''GetQueuedCompletionStatus'' 1 0, Check_invoke],
           Inr (0, zeroed)) \<and>
   \<not> NDEBUG unref_in_prepare \<and>
   uv_loop_refcount zeroed = 0 \<and>
   NDEBUG unref_twice_in_prepare_release \<and>
   UV_LOOP unref_twice_in_prepare_release uv_poll [] one_ref =
     Some ([Update_time, Process_timers, Idle_invoke, Process_reqs, Process_endgames,
            Prepare_invoke, Poll (zeroed\<lparr>refs := - 1\<rparr>) False,
            Retrieval ''GetQueuedCompletionStatus'' 1 0, Check_invoke],
           Inr (zeroed\<lparr>refs := - 1\<rparr>)) \<and>
   sint (uv_loop_refcount (zeroed\<lparr>refs := - 1\<rparr>)) \<le> 0"
proof -
  let ?calls = "[Update_time, Process_timers, Idle_invoke, Process_reqs, Process_endgames,
                 Prepare_invoke, Poll zeroed False,
                 Retrieval ''GetQueuedCompletionStatus'' 1 0, Check_invoke]"
  let ?calls2 = "[Update_time, Process_timers, Idle_invoke, Process_reqs, Process_endgames,
                  Prepare_invoke, Poll (zeroed\<lparr>refs := - 1\<rparr>) False,
                  Retrieval ''GetQueuedCompletionStatus'' 1 0, Check_invoke]"
  have debug: "\<not> NDEBUG unref_in_prepare" and release: "NDEBUG unref_twice_in_prepare_release"
    by (simp_all add: sample_defs)
  from run_loop_exit [where h = unref_in_prepare and loop = one_ref and calls = ?calls
      and status = 0 and loop' = zeroed, OF refl]
    run_unref_in_prepare debug
  have 1: "uv_loop_refcount zeroed = 0"
    by blast
  from run_loop_exit [where h = unref_twice_in_prepare_release and loop = one_ref
      and calls = ?calls2 and status = 0 and loop' = "zeroed\<lparr>refs := - 1\<rparr>", OF refl]
    run_release_returns_negative
  have 2: "UV_LOOP unref_twice_in_prepare_release
             (if pGetQueuedCompletionStatusEx unref_twice_in_prepare_release \<noteq> None
              then uv_poll_ex else uv_poll) [] one_ref =
           Some (?calls2, Inr (zeroed\<lparr>refs := - 1\<rparr>)) \<and>
           sint (uv_loop_refcount (zeroed\<lparr>refs := - 1\<rparr>)) \<le> 0"
    by blast
  have "pGetQueuedCompletionStatusEx unref_twice_in_prepare_release = None"
    by (simp add: sample_defs)
  with 1 2 debug release run_unref_in_prepare show ?thesis
    by simp
qed

text \<open>
  C3 as stated fails in a build that defines \<open>NDEBUG\<close>: the run returns 0 and the
  reference count is -1.  In a build that checks assertions, the same callbacks make
  the assertion fail: the count is negative when the loop ends.
\<close>

theorem run_returns_with_negative_count:
  "uv_run unref_twice_in_prepare_release one_ref =
     Some ([Update_time, Process_timers, Idle_invoke, Process_reqs, Process_endgames,
            Prepare_invoke, Poll (zeroed\<lparr>refs := - 1\<rparr>) False,
            Retrieval ''GetQueuedCompletionStatus'' 1 0, Check_invoke],
           Inr (0, zeroed\<lparr>refs := - 1\<rparr>)) \<and>
   sint (uv_loop_refcount (zeroed\<lparr>refs := - 1\<rparr>)) = - 1 \<and>
   uv_run unref_twice_in_prepare one_ref =
     Some ([Update_time, Process_timers, Idle_invoke, Process_reqs, Process_endgames,
            Prepare_invoke, Poll (zeroed\<lparr>refs := - 1\<rparr>) False,
            Retrieval ''GetQueuedCompletionStatus'' 1 0, Check_invoke],
           Inl (Assertion_failed ''loop->refs == 0''))"
  by (simp add: uv_run_def UV_LOOP.simps tick_defs sample_defs uv_loop_refcount_def)

subsection \<open>C4: deleting a loop leaves its completion port open\<close>

text \<open>\<open>uv_loop_delete\<close> gives the block back, and closes no port.\<close>

lemma uv_loop_delete_open_ports: "open_ports (uv_loop_delete p ptr) = open_ports p"
  by (cases ptr) (simp_all add: uv_loop_delete_def)

lemma uv_loop_delete_frees: "deref (uv_loop_delete p (Allocated a)) (Allocated a) = None"
  by (simp add: uv_loop_delete_def)

text \<open>
  C4 fails on the code.  \<open>uv_loop_new\<close> on a fresh process returns the block at address 1,
  whose loop owns the completion port 7; after \<open>uv_loop_delete\<close> the block is gone and
  port 7 is still open in the kernel, with no loop left to close it.
\<close>

theorem delete_leaves_port_open:
  "(case uv_loop_new quiet fresh_process of
      Inl e \<Rightarrow> False
    | Inr (ptr, p) \<Rightarrow>
        ptr = Allocated 1 \<and>
        map_option iocp (deref p ptr) = Some (Some 7) \<and>
        open_ports p = {7} \<and>
        deref (uv_loop_delete p ptr) ptr = None \<and>
        open_ports (uv_loop_delete p ptr) = {7})"
  by (simp add: life_defs sample_defs fresh_process_def)

subsection \<open>C5: the idle phase\<close>

text \<open>
  C5.  In a tick, let \<open>checked\<close> be the loop as the timers left it, where the tick tests
  the two queues, and \<open>after_idle\<close> the loop handed to the processing of the requests.
  The idle phase is among the calls of the tick exactly when the pending-request queue
  and the endgame queue of \<open>checked\<close> are both empty; it then comes right after the
  timers and before the requests, and \<open>after_idle\<close> is what \<open>uv_idle_invoke\<close> makes of
  \<open>checked\<close>; otherwise \<open>after_idle\<close> is \<open>checked\<close> itself.  The result of the tick is
  computed from \<open>after_idle\<close>: the requests and endgames are processed on it, and the
  tick ends there, or goes on to prepare, poll and check.  The ticks of \<open>uv_run\<close> are
  ticks of \<open>uv_run_once\<close>.
\<close>

theorem idle_invoked_iff:
  fixes h :: "'w hooks"
  assumes checked: "checked = uv_process_timers h (uv_update_time h loop)"
      and after_idle: "after_idle =
             (if pending_reqs_tail checked = [] \<and> endgame_handles checked = []
              then uv_idle_invoke h checked else checked)"
      and processed: "processed = uv_process_endgames h (uv_process_reqs h after_idle)"
      and prepared: "prepared = uv_prepare_invoke h processed"
      and block: "block = (idle_handles prepared = [] \<and> pending_reqs_tail prepared = [] \<and>
                           endgame_handles prepared = [] \<and> 0 < sint (refs prepared))"
      and poll: "poll = (if pGetQueuedCompletionStatusEx h \<noteq> None then uv_poll_ex else uv_poll)"
  shows
  "(Idle_invoke \<in> set (fst (uv_run_once h loop))) =
     (pending_reqs_tail checked = [] \<and> endgame_handles checked = []) \<and>
   takeWhile (\<lambda>c. c \<noteq> Process_reqs) (fst (uv_run_once h loop)) =
     [Update_time, Process_timers] @
     (if pending_reqs_tail checked = [] \<and> endgame_handles checked = []
      then [Idle_invoke] else []) \<and>
   (pending_reqs_tail checked = [] \<and> endgame_handles checked = [] \<longrightarrow>
      after_idle = uv_idle_invoke h checked) \<and>
   (pending_reqs_tail checked \<noteq> [] \<or> endgame_handles checked \<noteq> [] \<longrightarrow>
      after_idle = checked) \<and>
   snd (uv_run_once h loop) =
     (if sint (refs processed) \<le> 0 then Inr (0, processed)
      else case snd (poll h prepared block) of
             Inl e \<Rightarrow> Inl e
           | Inr polled \<Rightarrow> Inr (0, uv_check_invoke h polled)) \<and>
   uv_run h loop =
     (if 0 < sint (refs loop)
      then (case uv_run_once h loop of
              (calls, Inl e) \<Rightarrow> Some (calls, Inl e)
            | (calls, Inr (status, following)) \<Rightarrow>
                map_option (\<lambda>(later, r). (calls @ later, r)) (uv_run h following))
      else if NDEBUG h \<or> refs loop = 0 then Some ([], Inr (0, loop))
      else Some ([], Inl (Assertion_failed ''loop->refs == 0'')))"
proof -
  have processed': "processed = uv_process_endgames h (uv_process_reqs h
      (if pending_reqs_tail checked = [] \<and> endgame_handles checked = []
       then uv_idle_invoke h checked else checked))"
    unfolding processed after_idle ..
  note tick = uv_run_once_tick [OF checked processed' prepared block poll refl]
  note silent = retrievals_only [OF poll]
  obtain polled outcome where polled: "poll h prepared block = (polled, outcome)"
    by (cases "poll h prepared block")
  have quiet_poll: "Idle_invoke \<notin> set polled" "Process_reqs \<notin> set polled"
    using silent(2,3) [of prepared block] by (simp_all add: polled)
  have log: "(Idle_invoke \<in> set (fst (uv_run_once h loop))) =
     (pending_reqs_tail checked = [] \<and> endgame_handles checked = [])"
    using quiet_poll by (cases outcome) (auto simp: tick polled)
  have order: "takeWhile (\<lambda>c. c \<noteq> Process_reqs) (fst (uv_run_once h loop)) =
     [Update_time, Process_timers] @
     (if pending_reqs_tail checked = [] \<and> endgame_handles checked = []
      then [Idle_invoke] else [])"
    by (cases outcome) (auto simp: tick polled)
  have outcome: "snd (uv_run_once h loop) =
     (if sint (refs processed) \<le> 0 then Inr (0, processed)
      else case snd (poll h prepared block) of
             Inl e \<Rightarrow> Inl e
           | Inr polled \<Rightarrow> Inr (0, uv_check_invoke h polled))"
    by (cases outcome) (auto simp: tick polled)
  have applied: "after_idle = uv_idle_invoke h checked"
    if "pending_reqs_tail checked = [] \<and> endgame_handles checked = []"
    using that by (simp add: after_idle)
  have skipped: "after_idle = checked"
    if "pending_reqs_tail checked \<noteq> [] \<or> endgame_handles checked \<noteq> []"
    using that by (auto simp: after_idle)
  from log order outcome applied skipped uv_run_ticks [of h loop] show ?thesis
    by blast
qed

text \<open>
  C5, exercised with an idle callback that drops the only reference.  On a loop with
  nothing queued the idle phase runs and the tick ends without a reference; on a loop
  with a request pending it does not run and the reference is still held.
\<close>

theorem idle_invoked_iff_witness:
  "Idle_invoke \<in> set (fst (uv_run_once unref_in_idle one_ref)) \<and>
   takeWhile (\<lambda>c. c \<noteq> Process_reqs) (fst (uv_run_once unref_in_idle one_ref)) =
     [Update_time, Process_timers, Idle_invoke] \<and>
   snd (uv_run_once unref_in_idle one_ref) = Inr (0, zeroed) \<and>
   Idle_invoke \<notin> set (fst (uv_run_once unref_in_idle one_pending)) \<and>
   takeWhile (\<lambda>c. c \<noteq> Process_reqs) (fst (uv_run_once unref_in_idle one_pending)) =
     [Update_time, Process_timers] \<and>
   snd (uv_run_once unref_in_idle one_pending) = Inr (0, one_pending)"
proof -
  note idle = idle_invoked_iff
    [where h = unref_in_idle and loop = one_ref, OF refl refl refl refl refl refl]
  note busy = idle_invoked_iff
    [where h = unref_in_idle and loop = one_pending, OF refl refl refl refl refl refl]
  have 1: "Idle_invoke \<in> set (fst (uv_run_once unref_in_idle one_ref)) \<and>
     takeWhile (\<lambda>c. c \<noteq> Process_reqs) (fst (uv_run_once unref_in_idle one_ref)) =
       [Update_time, Process_timers, Idle_invoke] \<and>
     snd (uv_run_once unref_in_idle one_ref) = Inr (0, zeroed)"
    using idle by (simp add: sample_defs uv_unref_def uv_poll_def uv_poll_ex_def Let_def)
  have 2: "Idle_invoke \<notin> set (fst (uv_run_once unref_in_idle one_pending)) \<and>
     takeWhile (\<lambda>c. c \<noteq> Process_reqs) (fst (uv_run_once unref_in_idle one_pending)) =
       [Update_time, Process_timers] \<and>
     snd (uv_run_once unref_in_idle one_pending) = Inr (0, one_pending)"
    using busy by (simp add: sample_defs uv_unref_def uv_poll_def uv_poll_ex_def Let_def)
  from 1 2 show ?thesis
    by simp
qed

subsection \<open>C6: the timeout of the retrieval\<close>

text \<open>
  What the batch poller inserts does not depend on the timer store.
\<close>

lemma insert_dequeued_timer_store:
  "insert_dequeued (h\<lparr>uv_get_poll_timeout := timer_store\<rparr>) loop ovs =
   insert_dequeued h loop ovs"
  by (induction ovs arbitrary: loop) simp_all

text \<open>
  C6.  Let \<open>timeout\<close> be 0 when the poller must not block and what the timer store
  supplies (\<open>uv_get_poll_timeout\<close>) when it may, and let \<open>r\<close> and \<open>rx\<close> be what the kernel
  answers to a retrieval with that timeout.  Each poller makes one retrieval, with that
  timeout, and its result is computed from the kernel's answer to it.  A poller that
  must not block does the same whatever the timer store holds.  What the timer store
  supplies (the time to the nearest deadline, 0, or \<open>INFINITE\<close>) is computed outside
  core.c.
\<close>

theorem retrieval_timeout:
  assumes timeout: "timeout = (if block then uv_get_poll_timeout h loop else 0)"
      and answer: "r = GetQueuedCompletionStatus h loop (iocp loop) timeout"
  shows
  "(\<not> block \<longrightarrow> timeout = 0) \<and>
   (block \<longrightarrow> timeout = uv_get_poll_timeout h loop) \<and>
   uv_poll h loop block =
     ([Retrieval ''GetQueuedCompletionStatus'' 1 timeout],
      case lpOverlapped r of
        Some overlapped \<Rightarrow>
          Inr (uv_insert_pending_req h loop (uv_overlapped_to_req h overlapped))
      | None \<Rightarrow>
          if last_error r \<noteq> WAIT_TIMEOUT
          then Inl (Fatal (last_error r) ''GetQueuedCompletionStatus'')
          else Inr loop) \<and>
   (pGetQueuedCompletionStatusEx h = Some call \<and>
    rx = call loop (iocp loop) ARRAY_SIZE_overlappeds timeout \<longrightarrow>
      uv_poll_ex h loop block =
        ([Retrieval ''GetQueuedCompletionStatusEx'' ARRAY_SIZE_overlappeds timeout],
         if success_ex rx then Inr (insert_dequeued h loop (removed rx))
         else if last_error_ex rx \<noteq> WAIT_TIMEOUT
         then Inl (Fatal (last_error_ex rx) ''GetQueuedCompletionStatusEx'')
         else Inr loop)) \<and>
   uv_poll (h\<lparr>uv_get_poll_timeout := timer_store\<rparr>) loop False = uv_poll h loop False \<and>
   uv_poll_ex (h\<lparr>uv_get_poll_timeout := timer_store\<rparr>) loop False = uv_poll_ex h loop False"
proof -
  have "uv_poll (h\<lparr>uv_get_poll_timeout := timer_store\<rparr>) loop False = uv_poll h loop False"
    by (simp add: uv_poll_def Let_def split: option.split)
  moreover
  have "uv_poll_ex (h\<lparr>uv_get_poll_timeout := timer_store\<rparr>) loop False = uv_poll_ex h loop False"
    by (simp add: uv_poll_ex_def Let_def insert_dequeued_timer_store split: option.split)
  moreover
  have "uv_poll h loop block =
     ([Retrieval ''GetQueuedCompletionStatus'' 1 timeout],
      case lpOverlapped r of
        Some overlapped \<Rightarrow>
          Inr (uv_insert_pending_req h loop (uv_overlapped_to_req h overlapped))
      | None \<Rightarrow>
          if last_error r \<noteq> WAIT_TIMEOUT
          then Inl (Fatal (last_error r) ''GetQueuedCompletionStatus'')
          else Inr loop)"
    unfolding answer timeout by (simp add: uv_poll_def Let_def)
  moreover
  have "uv_poll_ex h loop block =
        ([Retrieval ''GetQueuedCompletionStatusEx'' ARRAY_SIZE_overlappeds timeout],
         if success_ex rx then Inr (insert_dequeued h loop (removed rx))
         else if last_error_ex rx \<noteq> WAIT_TIMEOUT
         then Inl (Fatal (last_error_ex rx) ''GetQueuedCompletionStatusEx'')
         else Inr loop)"
    if "pGetQueuedCompletionStatusEx h = Some call"
      and "rx = call loop (iocp loop) ARRAY_SIZE_overlappeds timeout"
    using that unfolding timeout by (simp add: uv_poll_ex_def Let_def)
  ultimately show ?thesis
    using timeout by auto
qed

text \<open>
  C6, exercised on a port where a packet arrives only while the caller waits, with the
  nearest timer 250 ms away, on a port with nothing ready and no timer, and on the
  batch call.
\<close>

theorem retrieval_timeout_witness:
  "uv_poll arrives_while_waiting one_ref False =
     ([Retrieval ''GetQueuedCompletionStatus'' 1 0], Inr one_ref) \<and>
   uv_poll arrives_while_waiting one_ref True =
     ([Retrieval ''GetQueuedCompletionStatus'' 1 250], Inr (one_ref\<lparr>pending_reqs_tail := [11]\<rparr>)) \<and>
   uv_poll quiet one_ref True =
     ([Retrieval ''GetQueuedCompletionStatus'' 1 INFINITE], Inr one_ref) \<and>
   pGetQueuedCompletionStatusEx timer_in_250 = Some batch_times_out \<and>
   uv_poll_ex timer_in_250 one_ref False =
     ([Retrieval ''GetQueuedCompletionStatusEx'' 128 0], Inr one_ref) \<and>
   uv_poll_ex timer_in_250 one_ref True =
     ([Retrieval ''GetQueuedCompletionStatusEx'' 128 250], Inr one_ref)"
proof -
  have available: "pGetQueuedCompletionStatusEx timer_in_250 = Some batch_times_out"
    by (simp add: sample_defs)
  from retrieval_timeout [where h = arrives_while_waiting and loop = one_ref and block = False
      and timer_store = "\<lambda>loop. 0" and call = batch_times_out and rx = undefined,
      OF refl refl]
  have 1: "uv_poll arrives_while_waiting one_ref False =
     ([Retrieval ''GetQueuedCompletionStatus'' 1 0], Inr one_ref)"
    by (simp add: arrives_while_waiting_def quiet_def nothing_ready_def)
  from retrieval_timeout [where h = arrives_while_waiting and loop = one_ref and block = True
      and timer_store = "\<lambda>loop. 0" and call = batch_times_out and rx = undefined,
      OF refl refl]
  have 2: "uv_poll arrives_while_waiting one_ref True =
     ([Retrieval ''GetQueuedCompletionStatus'' 1 250], Inr (one_ref\<lparr>pending_reqs_tail := [11]\<rparr>))"
    by (simp add: sample_defs)
  from retrieval_timeout [where h = quiet and loop = one_ref and block = True
      and timer_store = "\<lambda>loop. 0" and call = batch_times_out and rx = undefined, OF refl refl]
  have 3: "uv_poll quiet one_ref True =
     ([Retrieval ''GetQueuedCompletionStatus'' 1 INFINITE], Inr one_ref)"
    by (simp add: quiet_def nothing_ready_def)
  from retrieval_timeout [where h = timer_in_250 and loop = one_ref and block = False
      and call = batch_times_out and timer_store = "\<lambda>loop. 0"
      and rx = "batch_times_out one_ref (iocp one_ref) ARRAY_SIZE_overlappeds 0",
      OF refl refl] available
  have 4: "uv_poll_ex timer_in_250 one_ref False =
     ([Retrieval ''GetQueuedCompletionStatusEx'' 128 0], Inr one_ref)"
    by (simp add: batch_times_out_def ARRAY_SIZE_overlappeds_def)
  from retrieval_timeout [where h = timer_in_250 and loop = one_ref and block = True
      and call = batch_times_out and timer_store = "\<lambda>loop. 0"
      and rx = "batch_times_out one_ref (iocp one_ref) ARRAY_SIZE_overlappeds
                  (uv_get_poll_timeout timer_in_250 one_ref)",
      OF refl refl] available
  have 5: "uv_poll_ex timer_in_250 one_ref True =
     ([Retrieval ''GetQueuedCompletionStatusEx'' 128 250], Inr one_ref)"
    by (simp add: batch_times_out_def ARRAY_SIZE_overlappeds_def timer_in_250_def
        batch_nothing_ready_def quiet_def)
  from 1 2 3 4 5 available show ?thesis
    by simp
qed

subsection \<open>C7: the batch strategy\<close>

lemma insert_dequeued_foldl:
  "insert_dequeued h loop ovs =
   foldl (\<lambda>l ov. uv_insert_pending_req h l (uv_overlapped_to_req h ov)) loop ovs"
  by (induction ovs arbitrary: loop) simp_all

lemma insert_dequeued_pending:
  assumes "\<And>l q. pending_reqs_tail (uv_insert_pending_req h l q) = pending_reqs_tail l @ [q]"
  shows "pending_reqs_tail (insert_dequeued h loop ovs) =
         pending_reqs_tail loop @ map (uv_overlapped_to_req h) ovs"
  by (induction ovs arbitrary: loop) (simp_all add: assms)

text \<open>
  C7.  On a platform with the batch call, let \<open>r\<close> be its answer to the call \<open>uv_poll_ex\<close>
  makes, and let it be a success.  The call is given room for 128 entries, so a kernel
  that never returns more entries than it has room for returns at most 128.  The poller
  inserts the request of every entry, from the first to the last; with a request queue
  that inserts at its tail, the pending-request queue afterwards is the queue before
  followed by the requests of the entries in the order the kernel returned them.
\<close>

theorem batch_retrieval_in_order:
  assumes available: "pGetQueuedCompletionStatusEx h = Some call"
      and answer: "r = call loop (iocp loop) ARRAY_SIZE_overlappeds
                         (if block then uv_get_poll_timeout h loop else 0)"
      and succeeded: "success_ex r"
      and capacity: "\<forall>l port n t. length (removed (call l port n t)) \<le> n"
      and appends: "\<forall>l q. pending_reqs_tail (uv_insert_pending_req h l q) =
                            pending_reqs_tail l @ [q]"
  shows "\<exists>loop'.
           uv_poll_ex h loop block =
             ([Retrieval ''GetQueuedCompletionStatusEx'' 128
                 (if block then uv_get_poll_timeout h loop else 0)], Inr loop') \<and>
           loop' = foldl (\<lambda>l ov. uv_insert_pending_req h l (uv_overlapped_to_req h ov))
                     loop (removed r) \<and>
           pending_reqs_tail loop' =
             pending_reqs_tail loop @ map (uv_overlapped_to_req h) (removed r) \<and>
           length (removed r) \<le> 128"
proof -
  have "uv_poll_ex h loop block =
          ([Retrieval ''GetQueuedCompletionStatusEx'' 128
              (if block then uv_get_poll_timeout h loop else 0)],
           Inr (insert_dequeued h loop (removed r)))"
    using available answer succeeded
    by (simp add: uv_poll_ex_def Let_def ARRAY_SIZE_overlappeds_def)
  moreover have "length (removed r) \<le> 128"
    using capacity answer by (simp add: ARRAY_SIZE_overlappeds_def)
  moreover have "pending_reqs_tail (insert_dequeued h loop (removed r)) =
      pending_reqs_tail loop @ map (uv_overlapped_to_req h) (removed r)"
    using appends by (simp add: insert_dequeued_pending)
  ultimately show ?thesis
    by (simp add: insert_dequeued_foldl)
qed

text \<open>
  C7, exercised: a port holding the packets 11, 12, 13 and a loop with request 5 pending.
\<close>

theorem batch_retrieval_in_order_witness:
  "pGetQueuedCompletionStatusEx batch = Some three_ready \<and>
   success_ex (three_ready one_pending (iocp one_pending) ARRAY_SIZE_overlappeds INFINITE) \<and>
   (\<exists>loop'. uv_poll_ex batch one_pending True =
              ([Retrieval ''GetQueuedCompletionStatusEx'' 128 INFINITE], Inr loop') \<and>
            pending_reqs_tail loop' = [5, 11, 12, 13])"
proof -
  have available: "pGetQueuedCompletionStatusEx batch = Some three_ready"
    by (simp add: sample_defs)
  have succeeded:
    "success_ex (three_ready one_pending (iocp one_pending) ARRAY_SIZE_overlappeds
       (if True then uv_get_poll_timeout batch one_pending else 0))"
    by (simp add: three_ready_def)
  have capacity: "\<forall>l port n t. length (removed (three_ready l port n t)) \<le> n"
    by (simp add: three_ready_def)
  have appends: "\<forall>l q. pending_reqs_tail (uv_insert_pending_req batch l q) =
                         pending_reqs_tail l @ [q]"
    by (simp add: sample_defs)
  from batch_retrieval_in_order [OF available refl succeeded capacity appends]
  show ?thesis
    by (simp add: sample_defs ARRAY_SIZE_overlappeds_def)
qed

subsection \<open>C8: deleting the default loop\<close>

lemma uv_default_loop_again:
  "once_ran p uv_default_loop_init_guard \<Longrightarrow>
   uv_default_loop h p = Inr (Address_of_default_loop, p)"
  by (simp add: uv_default_loop_def uv_once_def)

lemma uv_default_loop_pointer:
  "uv_default_loop h p = Inr (ptr, p') \<Longrightarrow> ptr = Address_of_default_loop"
  by (auto simp: uv_default_loop_def split: sum.splits)

lemma default_loop_calls_again:
  "once_ran p uv_default_loop_init_guard \<Longrightarrow>
   default_loop_calls n h p = Inr (replicate n Address_of_default_loop, p)"
  by (induction n) (simp_all add: uv_default_loop_again)

lemma default_loop_calls_pointers:
  "default_loop_calls n h p = Inr (ptrs, p') \<Longrightarrow> ptrs = replicate n Address_of_default_loop"
proof (induction n arbitrary: p ptrs p')
  case 0
  then show ?case by simp
next
  case (Suc n)
  then show ?case
    by (auto split: sum.splits dest: uv_default_loop_pointer)
qed

text \<open>
  C8.  \<open>uv_loop_delete\<close> on the address of the default loop leaves the whole process as it
  is; the default loop is still there, with the state it had.  Once the default loop has
  been set up (and only \<open>uv_default_loop\<close> hands out its address), any number of further
  calls of \<open>uv_default_loop\<close> return that same address and change nothing.  In any case no
  call returns another address.
\<close>

theorem delete_default_loop_is_noop:
  "uv_loop_delete p Address_of_default_loop = p \<and>
   deref (uv_loop_delete p Address_of_default_loop) Address_of_default_loop =
     Some (static_default_loop p) \<and>
   (once_ran p uv_default_loop_init_guard \<longrightarrow>
      default_loop_calls n h (uv_loop_delete p Address_of_default_loop) =
        Inr (replicate n Address_of_default_loop, p)) \<and>
   (default_loop_calls n h (uv_loop_delete p Address_of_default_loop) = Inr (ptrs, p') \<longrightarrow>
      ptrs = replicate n Address_of_default_loop)"
  by (auto simp: uv_loop_delete_def default_loop_calls_again dest: default_loop_calls_pointers)

text \<open>The first call of \<open>uv_default_loop\<close> in a fresh process sets the default loop up.\<close>

lemma first_uv_default_loop:
  "uv_default_loop quiet fresh_process = Inr (Address_of_default_loop, running_process)"
  by (simp add: life_defs sample_defs fresh_process_def running_process_def)

text \<open>C8, exercised on the process that call leaves, with three further calls.\<close>

theorem delete_default_loop_is_noop_witness:
  "uv_default_loop quiet fresh_process = Inr (Address_of_default_loop, running_process) \<and>
   once_ran running_process uv_default_loop_init_guard \<and>
   uv_loop_delete running_process Address_of_default_loop = running_process \<and>
   deref (uv_loop_delete running_process Address_of_default_loop) Address_of_default_loop =
     Some (zeroed\<lparr>iocp := Some 7\<rparr>) \<and>
   default_loop_calls 3 quiet (uv_loop_delete running_process Address_of_default_loop) =
     Inr (replicate 3 Address_of_default_loop, running_process)"
proof -
  have ran: "once_ran running_process uv_default_loop_init_guard"
    by (simp add: running_process_def)
  have static: "static_default_loop running_process = zeroed\<lparr>iocp := Some 7\<rparr>"
    by (simp add: running_process_def)
  from delete_default_loop_is_noop [of running_process 3 quiet "[]" running_process]
    ran static first_uv_default_loop
  show ?thesis
    by auto
qed

subsection \<open>C9: references taken and given back\<close>

lemma uv_ref_funpow: "(uv_ref ^^ n) loop = loop\<lparr>refs := refs loop + of_nat n\<rparr>"
  by (induction n) (simp_all add: uv_ref_def)

lemma uv_unref_funpow: "(uv_unref ^^ n) loop = loop\<lparr>refs := refs loop - of_nat n\<rparr>"
  by (induction n) (simp_all add: uv_unref_def)

text \<open>
  C9.  \<open>n\<close> calls of \<open>uv_ref\<close> followed by \<open>n\<close> calls of \<open>uv_unref\<close> leave the reference count
  that \<open>uv_loop_refcount\<close> reads, and the whole loop, as they were; the count is a 32-bit
  \<open>int\<close> whose arithmetic wraps around, so this holds from every starting count.
\<close>

theorem ref_unref_inverse:
  "uv_loop_refcount ((uv_unref ^^ n) ((uv_ref ^^ n) loop)) = uv_loop_refcount loop \<and>
   (uv_unref ^^ n) ((uv_ref ^^ n) loop) = loop"
  by (simp add: uv_ref_funpow uv_unref_funpow uv_loop_refcount_def)

text \<open>C9, exercised at the largest count, where the two references wrap around.\<close>

theorem ref_unref_inverse_witness:
  "uv_loop_refcount ((uv_unref ^^ 2) ((uv_ref ^^ 2) (zeroed\<lparr>refs := 0x7FFFFFFF\<rparr>))) = 0x7FFFFFFF \<and>
   sint (uv_loop_refcount ((uv_ref ^^ 2) (zeroed\<lparr>refs := 0x7FFFFFFF\<rparr>))) = - 2147483647"
  using ref_unref_inverse [of 2 "zeroed\<lparr>refs := 0x7FFFFFFF\<rparr>"]
  by (simp add: uv_loop_refcount_def uv_ref_funpow)

subsection \<open>C10: the status returned\<close>



end
